theory Spec2Isabelle
  imports Main
begin

section \<open>Data model (the type declarations at the end of src/unnamed/part_000)\<close>

text \<open>
  The interfaces of the source become records. Several interfaces share the field names
  \<open>id\<close>, \<open>name\<close>, \<open>type\<close> and \<open>status\<close>; the fields carry the interface as a
  prefix (\<open>doc_id\<close>, \<open>col_id\<close>, \<open>tpl_id\<close>, \<open>sp_name\<close>, ...). A JavaScript \<open>number\<close>
  that is only stored and never computed with (\<open>size\<close>, \<open>page\<close>, \<open>width\<close>, \<open>version\<close>) is
  an \<open>int\<close>.
\<close>

record DocumentFile =
  doc_id :: string
  doc_name :: string
  doc_type :: string
  doc_size :: int
  doc_content :: string
  doc_mimeType :: string

datatype ColumnType = TextT | NumberT | DateT | BooleanT | ListT

datatype ColumnStatus = Idle | Extracting | Completed | Error

record Column =
  col_id :: string
  col_name :: string
  col_type :: ColumnType
  col_prompt :: string
  col_status :: ColumnStatus
  col_width :: "int option"

datatype Confidence = High | Medium | Low

datatype ReviewStatus = Verified | NeedsReview | Edited

record ExtractionCell =
  cell_value :: string
  confidence :: Confidence
  quote :: string
  page :: int
  reasoning :: string
  cell_status :: "ReviewStatus option"

text \<open>
  \<open>ExtractionResult\<close> is an object of objects:
  \<open>{ [docId]: { [colId]: ExtractionCell | null } }\<close>. The maps hold the own properties:
  a missing key is \<open>None\<close>, a key holding \<open>null\<close> is \<open>Some None\<close>, a key holding a cell
  is \<open>Some (Some cell)\<close>.
\<close>

type_synonym DocResults = "string \<rightharpoonup> ExtractionCell option"

type_synonym ExtractionResult = "string \<rightharpoonup> DocResults"

datatype SidebarMode = SidebarNone | SidebarVerify | SidebarChat

record SavedProject =
  sp_version :: int
  sp_name :: string
  savedAt :: string
  sp_columns :: "Column list"
  sp_documents :: "DocumentFile list"
  sp_results :: ExtractionResult
  sp_selectedModel :: string

record ColumnTemplate =
  tpl_id :: string
  tpl_name :: string
  tpl_type :: ColumnType
  tpl_prompt :: string
  category :: "string option"
  createdAt :: string


section \<open>Plain objects as dictionaries\<close>

text \<open>
  The result store and its rows are plain objects, and the source reads them with
  \<open>obj[key]\<close>. Such a read finds an own property first and otherwise walks the prototype
  chain, so it also finds what every plain object inherits from \<open>Object.prototype\<close>.
  \<open>objectPrototypeKeys\<close> are the property names the ECMAScript standard gives
  \<open>Object.prototype\<close> (with its annex for browsers). Read through a plain object, each of
  them yields a function, and \<open>__proto__\<close> yields \<open>Object.prototype\<close> itself: a truthy
  value that is no cell and has no property \<open>value\<close>.
\<close>

definition objectPrototypeKeys :: "string list" where
  "objectPrototypeKeys =
     [''constructor'', ''hasOwnProperty'', ''isPrototypeOf'', ''propertyIsEnumerable'',
      ''toLocaleString'', ''toString'', ''valueOf'', ''__proto__'',
      ''__defineGetter__'', ''__defineSetter__'', ''__lookupGetter__'', ''__lookupSetter__'']"

definition inheritedKey :: "string \<Rightarrow> bool" where
  "inheritedKey k = (k \<in> set objectPrototypeKeys)"

text \<open>
  What a read can yield, as far as the source can tell the outcomes apart: \<open>undefined\<close>,
  \<open>null\<close>, a cell, or a value that comes from a built-in object, of which only the
  truthiness matters (\<open>Builtin False\<close> covers a missing property of a built-in too).
\<close>

datatype JsValue = Undefined | Null | CellValue ExtractionCell | Builtin bool

fun truthy :: "JsValue \<Rightarrow> bool" where
  "truthy Undefined = False"
| "truthy Null = False"
| "truthy (CellValue cell) = True"
| "truthy (Builtin b) = b"

datatype JsError = TypeError | ReferenceError | SyntaxError | InvalidLibraryStructure

text \<open>
  When the store has no own row for a document id that is an inherited key,
  \<open>results[docId]\<close> is a built-in function (or \<open>Object.prototype\<close>), and \<open>?.[colId]\<close>
  reads a property of that built-in. Which properties the built-ins have, and which of
  them are accessors that throw, depends on the engine and its version. The model takes
  this as a parameter: \<open>rt d c\<close> is the outcome of reading property \<open>c\<close> of the built-in
  inherited under the name \<open>d\<close>, either a thrown error or the truthiness of the value.
\<close>

type_synonym Builtins = "string \<Rightarrow> string \<Rightarrow> JsError + bool"

section \<open>Result store: lookup and merge (the App component, src/unnamed/part_000)\<close>

text \<open>\<open>results[docId]?.[colId]\<close>.\<close>

definition lookupCell ::
  "Builtins \<Rightarrow> ExtractionResult \<Rightarrow> string \<Rightarrow> string \<Rightarrow> JsError + JsValue" where
  "lookupCell rt res d c =
     (case res d of
        Some row \<Rightarrow>
          (case row c of
             Some (Some cell) \<Rightarrow> Inr (CellValue cell)
           | Some None \<Rightarrow> Inr Null
           | None \<Rightarrow> Inr (if inheritedKey c then Builtin True else Undefined))
      | None \<Rightarrow>
          if inheritedKey d
          then (case rt d c of Inl e \<Rightarrow> Inl e | Inr b \<Rightarrow> Inr (Builtin b))
          else Inr Undefined)"

text \<open>
  The non-null cell the store itself holds for a pair, if any: the own entry, with \<open>null\<close>
  and a missing key both \<open>None\<close>. This is the notion the properties below speak about.
\<close>

definition storedCell :: "ExtractionResult \<Rightarrow> string \<Rightarrow> string \<Rightarrow> ExtractionCell option" where
  "storedCell res d c =
     (case res d of
        None \<Rightarrow> None
      | Some row \<Rightarrow> (case row c of None \<Rightarrow> None | Some v \<Rightarrow> v))"

text \<open>
  The updater passed to \<open>setResults\<close> by a finished task:
  \<open>prev => ({ ...prev, [doc.id]: { ...(prev[doc.id] || {}), [col.id]: data } })\<close>.
  A spread copies own enumerable properties only; when \<open>prev[doc.id]\<close> is an inherited
  built-in it contributes nothing, as \<open>{}\<close> does. A computed key always defines an own
  property.
\<close>

definition mergeCell :: "string \<Rightarrow> string \<Rightarrow> ExtractionCell \<Rightarrow> ExtractionResult \<Rightarrow> ExtractionResult" where
  "mergeCell d c data prev =
     prev(d \<mapsto> (case prev d of None \<Rightarrow> Map.empty | Some row \<Rightarrow> row)(c \<mapsto> Some data))"

section \<open>Task planning (processExtraction, step 1)\<close>

text \<open>
  The two nested \<open>for ... of\<close> loops that push onto \<open>tasks\<close>, with the test
  \<open>forceOverwrite || !results[doc.id]?.[col.id]\<close>: the lookup is evaluated only when
  \<open>forceOverwrite\<close> is false, and an error it throws ends the loops. The inner loop runs
  over the columns for one document, the outer one over the documents; \<open>acc\<close> is the array
  built so far.
\<close>

fun tasksForDoc ::
  "Builtins \<Rightarrow> ExtractionResult \<Rightarrow> bool \<Rightarrow> DocumentFile \<Rightarrow> Column list \<Rightarrow>
   (DocumentFile \<times> Column) list \<Rightarrow> JsError + (DocumentFile \<times> Column) list" where
  "tasksForDoc rt res forceOverwrite doc [] acc = Inr acc"
| "tasksForDoc rt res forceOverwrite doc (col # cols) acc =
     (if forceOverwrite then tasksForDoc rt res forceOverwrite doc cols (acc @ [(doc, col)])
      else
        (case lookupCell rt res (doc_id doc) (col_id col) of
           Inl e \<Rightarrow> Inl e
         | Inr v \<Rightarrow>
             tasksForDoc rt res forceOverwrite doc cols
               (if truthy v then acc else acc @ [(doc, col)])))"

fun tasksLoop ::
  "Builtins \<Rightarrow> ExtractionResult \<Rightarrow> bool \<Rightarrow> DocumentFile list \<Rightarrow> Column list \<Rightarrow>
   (DocumentFile \<times> Column) list \<Rightarrow> JsError + (DocumentFile \<times> Column) list" where
  "tasksLoop rt res forceOverwrite [] cols acc = Inr acc"
| "tasksLoop rt res forceOverwrite (doc # docs) cols acc =
     (case tasksForDoc rt res forceOverwrite doc cols acc of
        Inl e \<Rightarrow> Inl e
      | Inr acc' \<Rightarrow> tasksLoop rt res forceOverwrite docs cols acc')"

definition tasks ::
  "Builtins \<Rightarrow> DocumentFile list \<Rightarrow> Column list \<Rightarrow> ExtractionResult \<Rightarrow> bool \<Rightarrow>
   JsError + (DocumentFile \<times> Column) list" where
  "tasks rt docsToProcess colsToProcess res forceOverwrite =
     tasksLoop rt res forceOverwrite docsToProcess colsToProcess []"

section \<open>Column library import (src/utils/fileStorage.ts)\<close>







section \<open>CSV export (handleExportCSV)\<close>

text \<open>
  \<open>cell.value.replace(/"/g, '""')\<close>: every double quote (character \<open>0x22\<close>) is
  replaced by two.
\<close>

definition dq :: char where
  "dq = CHR 0x22"

fun escapeQuotes :: "string \<Rightarrow> string" where
  "escapeQuotes [] = []"
| "escapeQuotes (ch # rest) =
     (if ch = dq then dq # dq # escapeQuotes rest else ch # escapeQuotes rest)"

text \<open>
  The body of \<open>columns.forEach\<close>:
  \<open>const cell = results[doc.id]?.[col.id]; const val = cell ? cell.value.replace(...) : ""\<close>,
  and the field pushed is \<open>val\<close> between two double quotes. For a truthy \<open>cell\<close> that is
  no cell, \<open>cell.value\<close> is \<open>undefined\<close> and the call of \<open>replace\<close> throws a \<open>TypeError\<close>.
\<close>

definition cellField ::
  "Builtins \<Rightarrow> ExtractionResult \<Rightarrow> DocumentFile \<Rightarrow> Column \<Rightarrow> JsError + string" where
  "cellField rt res doc col =
     (case lookupCell rt res (doc_id doc) (col_id col) of
        Inl e \<Rightarrow> Inl e
      | Inr cell \<Rightarrow>
          if truthy cell
          then (case cell of
                  CellValue c \<Rightarrow> Inr ([dq] @ escapeQuotes (cell_value c) @ [dq])
                | _ \<Rightarrow> Inl TypeError)
          else Inr ([dq] @ [] @ [dq]))"

fun pushFields ::
  "Builtins \<Rightarrow> ExtractionResult \<Rightarrow> DocumentFile \<Rightarrow> Column list \<Rightarrow> string list \<Rightarrow>
   JsError + string list" where
  "pushFields rt res doc [] rowData = Inr rowData"
| "pushFields rt res doc (col # cols) rowData =
     (case cellField rt res doc col of
        Inl e \<Rightarrow> Inl e
      | Inr pushed \<Rightarrow> pushFields rt res doc cols (rowData @ [pushed]))"

text \<open>\<open>Array.prototype.join\<close>.\<close>

fun join :: "string \<Rightarrow> string list \<Rightarrow> string" where
  "join sep [] = []"
| "join sep [x] = x"
| "join sep (x # y # ys) = x @ sep @ join sep (y # ys)"

definition rowData ::
  "Builtins \<Rightarrow> ExtractionResult \<Rightarrow> Column list \<Rightarrow> DocumentFile \<Rightarrow> JsError + string list" where
  "rowData rt res cols doc = pushFields rt res doc cols [doc_name doc]"

text \<open>\<open>documents.map(doc => ...)\<close>, one call of the callback after the other.\<close>

fun csvRows ::
  "Builtins \<Rightarrow> DocumentFile list \<Rightarrow> Column list \<Rightarrow> ExtractionResult \<Rightarrow> JsError + string list" where
  "csvRows rt [] cols res = Inr []"
| "csvRows rt (doc # docs) cols res =
     (case rowData rt res cols doc of
        Inl e \<Rightarrow> Inl e
      | Inr cells \<Rightarrow>
          (case csvRows rt docs cols res of
             Inl e \<Rightarrow> Inl e
           | Inr rows \<Rightarrow> Inr (join '','' cells # rows)))"

definition headerRow :: "Column list \<Rightarrow> string list" where
  "headerRow cols = ''Document Name'' # map col_name cols"

text \<open>
  \<open>handleExportCSV\<close> returns at once when there is no document; otherwise the content of
  the downloaded file is the header line and the rows, joined by newlines.
\<close>

definition handleExportCSV ::
  "Builtins \<Rightarrow> DocumentFile list \<Rightarrow> Column list \<Rightarrow> ExtractionResult \<Rightarrow> JsError + string option" where
  "handleExportCSV rt docs cols res =
     (if docs = [] then Inr None
      else
        (case csvRows rt docs cols res of
           Inl e \<Rightarrow> Inl e
         | Inr rows \<Rightarrow> Inr (Some (join [CHR 0x0A] (join '','' (headerRow cols) # rows)))))"

definition quotedExample :: string where
  "quotedExample = ''He said '' @ [dq] @ ''hi'' @ [dq]"

section \<open>Application state and the run controller (the App component)\<close>

text \<open>
  The React state of \<open>App\<close> that the handlers below read and write, together with what
  lives outside React while a run is in flight:
  \<^item> \<open>controllers\<close> is the heap of \<open>AbortController\<close> objects allocated so far; a controller
    is referred to by its index, and the entry is its \<open>signal.aborted\<close> flag.
    \<open>new AbortController()\<close> appends \<open>False\<close>; \<open>abort()\<close> sets the flag;
  \<^item> \<open>inflight\<close> holds the tasks suspended at \<open>await extractColumnData(...)\<close>, each with
    the controller of its run;
  \<^item> \<open>awaiting\<close> holds the runs suspended at \<open>await Promise.all(promises)\<close>, each with its
    \<open>colsToProcess\<close>;
  \<^item> \<open>console\<close> is what \<open>console.error\<close> has printed.
  \<open>selectedDocIds\<close> is a \<open>Set\<close>, kept here as the list of its elements in insertion
  order. Pure display state (\<open>isSidebarExpanded\<close>, menus, project name) is left out.
\<close>

type_synonym Failure = string

record AppState =
  documents :: "DocumentFile list"
  columns :: "Column list"
  results :: ExtractionResult
  sidebarMode :: SidebarMode
  selectedCell :: "(string \<times> string) option"
  previewDocId :: "string option"
  isProcessing :: bool
  selectedDocIds :: "string list"
  abortControllerRef :: "nat option"
  controllers :: "bool list"
  inflight :: "(nat \<times> DocumentFile \<times> Column) list"
  awaiting :: "(nat \<times> Column list) list"
  console :: "(string \<times> Failure) list"

definition initialState :: AppState where
  "initialState =
     \<lparr> documents = [], columns = [], results = Map.empty, sidebarMode = SidebarNone,
       selectedCell = None, previewDocId = None, isProcessing = False, selectedDocIds = [],
       abortControllerRef = None, controllers = [], inflight = [], awaiting = [],
       console = [] \<rparr>"

text \<open>
  \<open>handleLoadProject\<close>, from the point where \<open>loadProject()\<close> has resolved with a project.
  \<open>validateProject\<close> has accepted the file: it tests that \<open>columns\<close> and \<open>documents\<close> are
  arrays and that \<open>results\<close> is an object, and nothing about the ids in them.
\<close>

definition handleLoadProject :: "SavedProject \<Rightarrow> AppState \<Rightarrow> AppState" where
  "handleLoadProject project s =
     s\<lparr>columns := sp_columns project, documents := sp_documents project,
       results := sp_results project, sidebarMode := SidebarNone, selectedCell := None,
       previewDocId := None, selectedDocIds := []\<rparr>"

text \<open>\<open>controller.signal.aborted\<close> and \<open>controller.abort()\<close>.\<close>

definition signalAborted :: "AppState \<Rightarrow> nat \<Rightarrow> bool" where
  "signalAborted s ctl = (ctl < length (controllers s) \<and> controllers s ! ctl)"

definition abort :: "nat \<Rightarrow> AppState \<Rightarrow> AppState" where
  "abort ctl s = s\<lparr>controllers := (controllers s)[ctl := True]\<rparr>"

text \<open>\<open>handleRemoveDoc\<close>.\<close>

definition handleRemoveDoc :: "string \<Rightarrow> AppState \<Rightarrow> AppState" where
  "handleRemoveDoc docId s =
     (let s1 = s\<lparr>documents := filter (\<lambda>d. doc_id d \<noteq> docId) (documents s),
                 results := (results s)(docId := None)\<rparr>;
          s2 = (if map_option fst (selectedCell s) = Some docId
                then s1\<lparr>sidebarMode := SidebarNone, selectedCell := None\<rparr> else s1)
      in if previewDocId s = Some docId
         then s2\<lparr>previewDocId := None, sidebarMode := SidebarNone\<rparr> else s2)"

text \<open>\<open>handleStopExtraction\<close>.\<close>

definition handleStopExtraction :: "AppState \<Rightarrow> AppState" where
  "handleStopExtraction s =
     (case abortControllerRef s of
        Some ctl \<Rightarrow> (abort ctl s)\<lparr>isProcessing := False\<rparr>
      | None \<Rightarrow> s)"

text \<open>
  The two \<open>setColumns\<close> updaters of \<open>processExtraction\<close>:
  \<open>prev.map(c => colsToProcess.some(target => target.id === c.id) ? {...c, status} : c)\<close>
  and \<open>prev.map(c => c.status === 'extracting' ? {...c, status: 'idle'} : c)\<close>.
\<close>

definition isTarget :: "Column list \<Rightarrow> Column \<Rightarrow> bool" where
  "isTarget colsToProcess c = list_ex (\<lambda>target. col_id target = col_id c) colsToProcess"

definition markTargets :: "ColumnStatus \<Rightarrow> Column list \<Rightarrow> Column list \<Rightarrow> Column list" where
  "markTargets st colsToProcess prev =
     map (\<lambda>c. if isTarget colsToProcess c then c\<lparr>col_status := st\<rparr> else c) prev"

definition resetExtracting :: "Column list \<Rightarrow> Column list" where
  "resetExtracting prev =
     map (\<lambda>c. if col_status c = Extracting then c\<lparr>col_status := Idle\<rparr> else c) prev"

text \<open>
  One task, \<open>async ({ doc, col }) => { ... }\<close>, in its two synchronous pieces. Before the
  \<open>await\<close>: return at once when the signal is aborted, otherwise call the client and
  suspend (the task joins \<open>inflight\<close>). After the \<open>await\<close>: a rejected call is caught and
  logged; a fulfilled one is dropped when the signal is aborted and merged otherwise.
\<close>

definition taskStart :: "nat \<Rightarrow> AppState \<Rightarrow> DocumentFile \<times> Column \<Rightarrow> (nat \<times> DocumentFile \<times> Column) option" where
  "taskStart controller s task =
     (if signalAborted s controller then None else Some (controller, fst task, snd task))"

definition failureMessage :: "DocumentFile \<Rightarrow> Column \<Rightarrow> string" where
  "failureMessage doc col = ''Failed to extract '' @ col_name col @ '' for '' @ doc_name doc"

definition taskResume :: "nat \<Rightarrow> DocumentFile \<Rightarrow> Column \<Rightarrow> Failure + ExtractionCell \<Rightarrow> AppState \<Rightarrow> AppState" where
  "taskResume controller doc col outcome s =
     (case outcome of
        Inl e \<Rightarrow> s\<lparr>console := console s @ [(failureMessage doc col, e)]\<rparr>
      | Inr data \<Rightarrow>
          if signalAborted s controller then s
          else s\<lparr>results := mergeCell (doc_id doc) (col_id col) data (results s)\<rparr>)"

text \<open>
  The \<open>finally\<close> block of \<open>processExtraction\<close>:
  \<open>if (abortControllerRef.current === controller) { setIsProcessing(false);
  abortControllerRef.current = null; setColumns(...reset...) }\<close>.
\<close>

definition finallyBlock :: "nat \<Rightarrow> AppState \<Rightarrow> AppState" where
  "finallyBlock controller s =
     (if abortControllerRef s = Some controller
      then s\<lparr>isProcessing := False, abortControllerRef := None,
             columns := resetExtracting (columns s)\<rparr>
      else s)"

text \<open>
  \<open>processExtraction\<close> up to \<open>await Promise.all(promises)\<close>. \<open>abortPrevious\<close> is its
  first statement, \<open>if (abortControllerRef.current) abortControllerRef.current.abort()\<close>.
  \<open>closureResults\<close> is the \<open>results\<close> value captured by the handler that calls it (the
  planner reads this one, not the pending state). When a lookup of the planning loops
  throws, control leaves the \<open>try\<close> body before any task is created, the \<open>finally\<close> block
  runs, and the promise of \<open>processExtraction\<close>, which nothing awaits, is rejected.
\<close>

definition abortPrevious :: "AppState \<Rightarrow> AppState" where
  "abortPrevious s =
     (case abortControllerRef s of Some prevCtl \<Rightarrow> abort prevCtl s | None \<Rightarrow> s)"

definition processExtraction ::
  "Builtins \<Rightarrow> ExtractionResult \<Rightarrow> DocumentFile list \<Rightarrow> Column list \<Rightarrow> bool \<Rightarrow>
   AppState \<Rightarrow> AppState" where
  "processExtraction rt closureResults docsToProcess colsToProcess forceOverwrite s =
     (let s1 = abortPrevious s;
          controller = length (controllers s1);
          s2 = s1\<lparr>controllers := controllers s1 @ [False],
                  abortControllerRef := Some controller,
                  isProcessing := True\<rparr>;
          s3 = s2\<lparr>columns := markTargets Extracting colsToProcess (columns s2)\<rparr>
      in case tasks rt docsToProcess colsToProcess closureResults forceOverwrite of
           Inl e \<Rightarrow> finallyBlock controller s3
         | Inr ts \<Rightarrow>
             (let started = List.map_filter (taskStart controller s3) ts
              in s3\<lparr>inflight := inflight s3 @ started,
                     awaiting := awaiting s3 @ [(controller, colsToProcess)]\<rparr>))"

text \<open>
  \<open>processExtraction\<close> after \<open>await Promise.all(promises)\<close>: the completion update and
  the \<open>finally\<close> block. No statement after the planning loops throws (each task catches
  its own failure), so the \<open>finally\<close> block follows the completion update.
\<close>

definition runSettled :: "nat \<Rightarrow> Column list \<Rightarrow> AppState \<Rightarrow> AppState" where
  "runSettled controller colsToProcess s =
     (let s1 = (if \<not> signalAborted s controller
                then s\<lparr>columns := markTargets Completed colsToProcess (columns s)\<rparr> else s)
      in finallyBlock controller s1)"

text \<open>\<open>handleRunAnalysis\<close> and \<open>handleRerunSelected\<close>.\<close>

definition handleRunAnalysis :: "Builtins \<Rightarrow> AppState \<Rightarrow> AppState" where
  "handleRunAnalysis rt s =
     (if documents s = [] \<or> columns s = [] then s
      else processExtraction rt (results s) (documents s) (columns s) False s)"

definition handleRerunSelected :: "Builtins \<Rightarrow> AppState \<Rightarrow> AppState" where
  "handleRerunSelected rt s =
     (if selectedDocIds s = [] \<or> columns s = [] then s
      else
        (let selectedDocs = filter (\<lambda>d. doc_id d \<in> set (selectedDocIds s)) (documents s);
             s1 = s\<lparr>results := fold (\<lambda>docId next. next(docId := None)) (selectedDocIds s) (results s)\<rparr>
         in processExtraction rt (results s) selectedDocs (columns s) True s1))"

text \<open>
  \<open>handleToggleDocSelection\<close> and \<open>handleCellClick\<close>. When the lookup of
  \<open>handleCellClick\<close> throws, the handler ends before any state is set.
\<close>

definition handleToggleDocSelection :: "string \<Rightarrow> AppState \<Rightarrow> AppState" where
  "handleToggleDocSelection docId s =
     (if docId \<in> set (selectedDocIds s)
      then s\<lparr>selectedDocIds := removeAll docId (selectedDocIds s)\<rparr>
      else s\<lparr>selectedDocIds := selectedDocIds s @ [docId]\<rparr>)"

definition handleCellClick :: "Builtins \<Rightarrow> string \<Rightarrow> string \<Rightarrow> AppState \<Rightarrow> AppState" where
  "handleCellClick rt docId colId s =
     (case lookupCell rt (results s) docId colId of
        Inl e \<Rightarrow> s
      | Inr cell \<Rightarrow>
          if truthy cell
          then s\<lparr>selectedCell := Some (docId, colId), previewDocId := None,
                 sidebarMode := SidebarVerify\<rparr>
          else s)"

text \<open>
  \<open>handleVerifyCell\<close>. The updater evaluates \<open>prev[docId][colId]\<close> with no test. When
  \<open>prev[docId]\<close> is \<open>undefined\<close> (no own row, and the id is no inherited key) the property
  access throws a \<open>TypeError\<close>; when it is an inherited built-in, the read of its property
  may throw. In every other case but one the value spread into the new entry is no cell
  (\<open>null\<close>, \<open>undefined\<close> or something built in), and the object stored is
  \<open>{ status: 'verified' }\<close> with at most properties that no \<open>ExtractionCell\<close> has; the
  model reports this outcome as \<open>NotACell\<close> instead of inventing field values. The one
  case left is an own row with an own non-null cell.
\<close>

datatype VerifyError = Throws JsError | NotACell

definition handleVerifyCell :: "Builtins \<Rightarrow> AppState \<Rightarrow> VerifyError + AppState" where
  "handleVerifyCell rt s =
     (case selectedCell s of
        None \<Rightarrow> Inr s
      | Some (docId, colId) \<Rightarrow>
          (case results s docId of
             None \<Rightarrow>
               if inheritedKey docId
               then (case rt docId colId of Inl e \<Rightarrow> Inl (Throws e) | Inr b \<Rightarrow> Inl NotACell)
               else Inl (Throws TypeError)
           | Some row \<Rightarrow>
               (case row colId of
                  Some (Some cell) \<Rightarrow>
                    Inr (s\<lparr>results := (results s)(docId \<mapsto>
                            row(colId \<mapsto> Some (cell\<lparr>cell_status := Some Verified\<rparr>)))\<rparr>)
                | _ \<Rightarrow> Inl NotACell)))"

text \<open>The stored entry for a pair, \<open>null\<close> and a missing key kept apart.\<close>

definition entry :: "ExtractionResult \<Rightarrow> string \<Rightarrow> string \<Rightarrow> ExtractionCell option option" where
  "entry res d c = (case res d of None \<Rightarrow> None | Some row \<Rightarrow> row c)"

section \<open>The event loop\<close>

text \<open>
  JavaScript runs one handler or one continuation at a time. An event is a user action
  or the resumption of a suspended piece of \<open>processExtraction\<close>:
  \<^item> \<open>ClientReturns ctl doc col outcome\<close>: the client call of an in-flight task settles
    (\<open>Inl\<close> a rejection, \<open>Inr\<close> the extracted cell) and the task runs to its end;
  \<^item> \<open>AllSettled ctl\<close>: \<open>Promise.all\<close> of the run with controller \<open>ctl\<close> resolves, which
    needs every task of that run to have finished.
  \<open>step\<close> is \<open>None\<close> when the event cannot happen in the state.
\<close>

datatype Event =
    RunAnalysis
  | RerunSelected
  | StopExtraction
  | ClientReturns nat DocumentFile Column "Failure + ExtractionCell"
  | AllSettled nat
  | RemoveDoc string
  | ToggleDocSelection string
  | CellClick string string

fun step :: "Builtins \<Rightarrow> Event \<Rightarrow> AppState \<Rightarrow> AppState option" where
  "step rt RunAnalysis s = Some (handleRunAnalysis rt s)"
| "step rt RerunSelected s = Some (handleRerunSelected rt s)"
| "step rt StopExtraction s = Some (handleStopExtraction s)"
| "step rt (ClientReturns ctl doc col outcome) s =
     (if (ctl, doc, col) \<in> set (inflight s)
      then Some (taskResume ctl doc col outcome
                   (s\<lparr>inflight := remove1 (ctl, doc, col) (inflight s)\<rparr>))
      else None)"
| "step rt (AllSettled ctl) s =
     (case map_of (awaiting s) ctl of
        None \<Rightarrow> None
      | Some colsToProcess \<Rightarrow>
          if list_ex (\<lambda>t. fst t = ctl) (inflight s) then None
          else Some (runSettled ctl colsToProcess
                       (s\<lparr>awaiting := filter (\<lambda>r. fst r \<noteq> ctl) (awaiting s)\<rparr>)))"
| "step rt (RemoveDoc docId) s = Some (handleRemoveDoc docId s)"
| "step rt (ToggleDocSelection docId) s = Some (handleToggleDocSelection docId s)"
| "step rt (CellClick docId colId) s = Some (handleCellClick rt docId colId s)"

fun exec :: "Builtins \<Rightarrow> Event list \<Rightarrow> AppState \<Rightarrow> AppState option" where
  "exec rt [] s = Some s"
| "exec rt (e # es) s = (case step rt e s of None \<Rightarrow> None | Some s' \<Rightarrow> exec rt es s')"

text \<open>The events by which a run makes progress or is cancelled.\<close>

fun runEvent :: "Event \<Rightarrow> bool" where
  "runEvent (ClientReturns ctl doc col outcome) = True"
| "runEvent (AllSettled ctl) = True"
| "runEvent StopExtraction = True"
| "runEvent e = False"

text \<open>
  Every in-flight task belongs to a run that is either cancelled or the one
  \<open>abortControllerRef\<close> points to.
\<close>

definition inflightOk :: "AppState \<Rightarrow> bool" where
  "inflightOk s =
     list_all (\<lambda>t. signalAborted s (fst t) \<or>
                    (abortControllerRef s = Some (fst t) \<and> fst t < length (controllers s)))
       (inflight s)"

text \<open>
  While a re-run of the documents \<open>S\<close> is under way, every in-flight task is cancelled or
  works on a document of \<open>S\<close>.
\<close>

definition rerunInflight :: "string set \<Rightarrow> AppState \<Rightarrow> bool" where
  "rerunInflight S s =
     (\<forall>t \<in> set (inflight s). signalAborted s (fst t) \<or> doc_id (fst (snd t)) \<in> S)"

text \<open>The state without the console.\<close>

definition silent :: "AppState \<Rightarrow> AppState" where
  "silent s = s\<lparr>console := []\<rparr>"

section \<open>Example data\<close>

definition cellX :: ExtractionCell where
  "cellX = \<lparr> cell_value = ''12 months'', confidence = High, quote = ''term of twelve months'',
             page = 3, reasoning = ''stated in clause 2'', cell_status = None \<rparr>"

definition cellY :: ExtractionCell where
  "cellY = \<lparr> cell_value = quotedExample, confidence = Low, quote = ''hi'',
             page = 1, reasoning = ''greeting'', cell_status = Some NeedsReview \<rparr>"

definition docA :: DocumentFile where
  "docA = \<lparr> doc_id = ''a'', doc_name = ''A.pdf'', doc_type = ''application/pdf'', doc_size = 10,
            doc_content = ''QQ=='', doc_mimeType = ''text/markdown'' \<rparr>"

definition docB :: DocumentFile where
  "docB = \<lparr> doc_id = ''b'', doc_name = ''B.pdf'', doc_type = ''application/pdf'', doc_size = 20,
            doc_content = ''Qg=='', doc_mimeType = ''text/markdown'' \<rparr>"

definition colX :: Column where
  "colX = \<lparr> col_id = ''x'', col_name = ''Term'', col_type = TextT,
            col_prompt = ''What is the term?'', col_status = Idle, col_width = Some 250 \<rparr>"

text \<open>One uploaded document, one column, nothing extracted yet.\<close>

definition exState :: AppState where
  "exState = initialState\<lparr> documents := [docA], columns := [colX] \<rparr>"

text \<open>A cell of document \<open>a\<close> is open in the verification sidebar.\<close>

definition verifyState :: AppState where
  "verifyState = initialState\<lparr> documents := [docA], columns := [colX],
       results := [''a'' \<mapsto> [''x'' \<mapsto> Some cellX]], selectedCell := Some (''a'', ''x''),
       sidebarMode := SidebarVerify \<rparr>"

text \<open>Two uploaded documents, one column, nothing extracted yet.\<close>

definition twoDocState :: AppState where
  "twoDocState = initialState\<lparr> documents := [docA, docB], columns := [colX] \<rparr>"

text \<open>
  Three histories of a run over \<open>exState\<close>, each up to the moment its last task has
  finished: the run completes; the run is stopped; the run is stopped and a second run is
  started before the task of the first returns. The states they lead to follow.
\<close>

definition completedTrace :: "Event list" where
  "completedTrace = [RunAnalysis, ClientReturns 0 docA colX (Inr cellX)]"

definition stoppedTrace :: "Event list" where
  "stoppedTrace = [RunAnalysis, StopExtraction, ClientReturns 0 docA colX (Inr cellX)]"

definition supersededTrace :: "Event list" where
  "supersededTrace =
     [RunAnalysis, StopExtraction, RunAnalysis, ClientReturns 0 docA colX (Inr cellX)]"

definition completedRun :: AppState where
  "completedRun = exState\<lparr> columns := [colX\<lparr>col_status := Extracting\<rparr>],
       results := [''a'' \<mapsto> [''x'' \<mapsto> Some cellX]],
       isProcessing := True, abortControllerRef := Some 0, controllers := [False],
       awaiting := [(0, [colX])] \<rparr>"

definition stoppedRun :: AppState where
  "stoppedRun = exState\<lparr> columns := [colX\<lparr>col_status := Extracting\<rparr>],
       isProcessing := False, abortControllerRef := Some 0, controllers := [True],
       awaiting := [(0, [colX])] \<rparr>"

definition supersededRun :: AppState where
  "supersededRun = exState\<lparr> columns := [colX\<lparr>col_status := Extracting\<rparr>],
       isProcessing := True, abortControllerRef := Some 1, controllers := [True, False],
       inflight := [(1, docA, colX\<lparr>col_status := Extracting\<rparr>)],
       awaiting := [(0, [colX]), (1, [colX\<lparr>col_status := Extracting\<rparr>])] \<rparr>"

text \<open>Two documents with one extracted cell each, the first one ticked for a re-run.\<close>

definition rerunState :: AppState where
  "rerunState = initialState\<lparr> documents := [docA, docB], columns := [colX],
       results := [''a'' \<mapsto> [''x'' \<mapsto> Some cellX], ''b'' \<mapsto> [''x'' \<mapsto> Some cellY]],
       selectedDocIds := [''a''] \<rparr>"

definition rerunTrace :: "Event list" where
  "rerunTrace = [ClientReturns 0 docA colX (Inr cellY), AllSettled 0]"

text \<open>
  The ids of the examples above are no property names of \<open>Object.prototype\<close>, so none of
  them reads a built-in, and they run alike in every runtime. Where an example has to name
  one, it is the runtime in which every property read from a built-in is \<open>undefined\<close>.
\<close>

definition plainRuntime :: Builtins where
  "plainRuntime d c = Inr False"

text \<open>
  A project file with one document and two columns, the second of which has the id
  \<open>constructor\<close>. The store holds the cell of the first column and nothing for the second.
\<close>

definition colOwner :: Column where
  "colOwner = \<lparr> col_id = ''constructor'', col_name = ''Owner'', col_type = TextT,
                col_prompt = ''Who is the owner?'', col_status = Idle, col_width = Some 250 \<rparr>"

definition ownerProject :: SavedProject where
  "ownerProject =
     \<lparr> sp_version = 1, sp_name = ''Owners'', savedAt = ''2025-01-01T00:00:00.000Z'',
       sp_columns = [colX, colOwner], sp_documents = [docA],
       sp_results = [''a'' \<mapsto> [''x'' \<mapsto> Some cellX]],
       sp_selectedModel = ''gemini-2.5-flash'' \<rparr>"

text \<open>An export of two documents: one cell is the quoted example, the other is missing.\<close>

definition exportExample :: string where
  "exportExample =
     ''Document Name,Term'' @ [CHR 0x0A]
     @ ''A.pdf,'' @ [dq] @ ''He said '' @ [dq, dq] @ ''hi'' @ [dq, dq] @ [dq] @ [CHR 0x0A]
     @ ''B.pdf,'' @ [dq, dq]"

section \<open>Lookup lemmas\<close>

lemmas handler_defs =
  handleRunAnalysis_def handleRerunSelected_def handleStopExtraction_def handleRemoveDoc_def
  handleToggleDocSelection_def handleCellClick_def processExtraction_def runSettled_def
  finallyBlock_def taskResume_def taskStart_def tasks_def markTargets_def resetExtracting_def
  isTarget_def abort_def abortPrevious_def signalAborted_def initialState_def
  List.map_filter_def Let_def

lemma plain_example_ids [simp]:
  "\<not> inheritedKey ''a''" "\<not> inheritedKey ''b''" "\<not> inheritedKey ''x''"
  "\<not> inheritedKey ''doc1''" "\<not> inheritedKey ''colA''" "\<not> inheritedKey ''colB''"
  by (simp_all add: inheritedKey_def objectPrototypeKeys_def)

lemma inheritedKey_constructor [simp]: "inheritedKey ''constructor''"
  by (simp add: inheritedKey_def objectPrototypeKeys_def)

text \<open>An own non-null cell is what the lookup finds, whatever the keys are.\<close>

lemma lookupCell_stored:
  "storedCell res d c = Some cell \<Longrightarrow> lookupCell rt res d c = Inr (CellValue cell)"
  by (auto simp add: lookupCell_def storedCell_def split: option.splits)

text \<open>
  Where neither key is a property name of \<open>Object.prototype\<close>, the lookup does not throw and
  is truthy exactly when the store holds a non-null cell.
\<close>

lemma lookupCell_plain:
  assumes "\<not> inheritedKey d" "\<not> inheritedKey c"
  shows "\<exists>v. lookupCell rt res d c = Inr v \<and> truthy v = (storedCell res d c \<noteq> None)"
  using assms by (auto simp add: lookupCell_def storedCell_def split: option.splits)

lemma lookupCell_mergeCell_same: "lookupCell rt (mergeCell d c data res) d c = Inr (CellValue data)"
  by (simp add: lookupCell_def mergeCell_def)

lemma storedCell_mergeCell_same: "storedCell (mergeCell d c data res) d c = Some data"
  by (simp add: storedCell_def mergeCell_def)

lemma mergeCell_other_doc: "d' \<noteq> d \<Longrightarrow> mergeCell d c data res d' = res d'"
  by (simp add: mergeCell_def)

section \<open>Planner lemmas\<close>

lemma product_concat: "List.product xs ys = concat (map (\<lambda>x. map (Pair x) ys) xs)"
  by (induction xs) simp_all

lemma filter_product:
  "filter (\<lambda>(x, y). P x y) (List.product xs ys) =
     concat (map (\<lambda>x. map (Pair x) (filter (P x) ys)) xs)"
  by (induction xs) (simp_all add: filter_map comp_def)

text \<open>With overwrite no lookup is made and every pair is planned.\<close>

lemma tasksForDoc_force: "tasksForDoc rt res True doc cols acc = Inr (acc @ map (Pair doc) cols)"
  by (induction cols arbitrary: acc) simp_all

lemma tasksLoop_force:
  "tasksLoop rt res True docs cols acc = Inr (acc @ concat (map (\<lambda>doc. map (Pair doc) cols) docs))"
  by (induction docs arbitrary: acc) (simp_all add: tasksForDoc_force)

lemma tasks_force: "tasks rt docs cols res True = Inr (List.product docs cols)"
  by (simp add: tasks_def tasksLoop_force product_concat)

text \<open>
  Without overwrite, and for ids none of which is a property name of \<open>Object.prototype\<close>,
  the task list is the product of the documents and the columns with exactly the pairs
  removed for which the store holds a non-null cell.
\<close>

lemma tasksForDoc_plain:
  assumes "\<not> inheritedKey (doc_id doc)" "list_all (\<lambda>col. \<not> inheritedKey (col_id col)) cols"
  shows "tasksForDoc rt res False doc cols acc =
     Inr (acc @ map (Pair doc)
            (filter (\<lambda>col. storedCell res (doc_id doc) (col_id col) = None) cols))"
  using assms
proof (induction cols arbitrary: acc)
  case Nil
  then show ?case by simp
next
  case (Cons col cols)
  from Cons.prems have col: "\<not> inheritedKey (col_id col)"
    and rest: "list_all (\<lambda>col. \<not> inheritedKey (col_id col)) cols"
    by simp_all
  from lookupCell_plain [OF Cons.prems(1) col] obtain v
    where v: "lookupCell rt res (doc_id doc) (col_id col) = Inr v"
      and tv: "truthy v = (storedCell res (doc_id doc) (col_id col) \<noteq> None)"
    by blast
  show ?case
    using v tv Cons.IH [OF Cons.prems(1) rest] by simp
qed

lemma tasksLoop_plain:
  assumes "list_all (\<lambda>doc. \<not> inheritedKey (doc_id doc)) docs"
    and "list_all (\<lambda>col. \<not> inheritedKey (col_id col)) cols"
  shows "tasksLoop rt res False docs cols acc =
     Inr (acc @ concat (map (\<lambda>doc. map (Pair doc)
            (filter (\<lambda>col. storedCell res (doc_id doc) (col_id col) = None) cols)) docs))"
  using assms
proof (induction docs arbitrary: acc)
  case Nil
  then show ?case by simp
next
  case (Cons doc docs)
  from Cons.prems have doc: "\<not> inheritedKey (doc_id doc)"
    and rest: "list_all (\<lambda>doc. \<not> inheritedKey (doc_id doc)) docs"
    by simp_all
  show ?case
    using tasksForDoc_plain [OF doc Cons.prems(2)] Cons.IH [OF rest Cons.prems(2)] by simp
qed

lemma tasks_plain:
  assumes "list_all (\<lambda>doc. \<not> inheritedKey (doc_id doc)) docs"
    and "list_all (\<lambda>col. \<not> inheritedKey (col_id col)) cols"
  shows "tasks rt docs cols res False =
     Inr (filter (\<lambda>(doc, col). storedCell res (doc_id doc) (col_id col) = None)
            (List.product docs cols))"
  using tasksLoop_plain [OF assms] by (simp add: tasks_def filter_product)

lemma loaded_ownerProject:
  "handleLoadProject ownerProject initialState =
     initialState\<lparr>documents := [docA], columns := [colX, colOwner],
       results := [''a'' \<mapsto> [''x'' \<mapsto> Some cellX]]\<rparr>"
  by (simp add: handleLoadProject_def ownerProject_def initialState_def)

text \<open>
  C1. The task planner is not exact on every store: the lookup \<open>results[doc.id]?.[col.id]\<close>
  also finds what a row inherits from \<open>Object.prototype\<close>. After loading the project
  \<open>ownerProject\<close> the store holds no entry for document \<open>a\<close> and the column with id
  \<open>constructor\<close>, so the plan without overwrite has to contain that pair; the planning
  loops return the empty list, and the run that \<open>handleRunAnalysis\<close> starts dispatches
  no task. The comment above the test in the source reads: only add task if result doesn't
  exist or forceOverwrite is true.
\<close>

theorem C1_inherited_key_unplanned:
  "\<forall>rt. storedCell (sp_results ownerProject) (doc_id docA) (col_id colOwner) = None
     \<and> entry (sp_results ownerProject) (doc_id docA) (col_id colOwner) = None
     \<and> tasks rt (sp_documents ownerProject) (sp_columns ownerProject) (sp_results ownerProject) False
         = Inr []
     \<and> tasks rt (sp_documents ownerProject) (sp_columns ownerProject) (sp_results ownerProject) True
         = Inr [(docA, colX), (docA, colOwner)]
     \<and> inflight (handleRunAnalysis rt (handleLoadProject ownerProject initialState)) = []"
proof
  fix rt
  have "tasks rt [docA] [colX, colOwner] [''a'' \<mapsto> [''x'' \<mapsto> Some cellX]] False = Inr []"
    by (simp add: tasks_def lookupCell_def docA_def colX_def colOwner_def)
  moreover have "inflight (handleRunAnalysis rt (handleLoadProject ownerProject initialState)) = []"
    unfolding loaded_ownerProject
    by (simp add: handler_defs lookupCell_def docA_def colX_def colOwner_def)
  ultimately show "storedCell (sp_results ownerProject) (doc_id docA) (col_id colOwner) = None
     \<and> entry (sp_results ownerProject) (doc_id docA) (col_id colOwner) = None
     \<and> tasks rt (sp_documents ownerProject) (sp_columns ownerProject) (sp_results ownerProject) False
         = Inr []
     \<and> tasks rt (sp_documents ownerProject) (sp_columns ownerProject) (sp_results ownerProject) True
         = Inr [(docA, colX), (docA, colOwner)]
     \<and> inflight (handleRunAnalysis rt (handleLoadProject ownerProject initialState)) = []"
    by (simp add: ownerProject_def storedCell_def entry_def tasks_force docA_def colOwner_def)
qed

section \<open>Merging\<close>

text \<open>
  C2. Merge isolation. For two distinct columns of one document, merging a cell for the one
  and then a cell for the other, in either order, leaves both cells in the store, where the
  lookup of the source finds them; the two orders even give the same store.
\<close>

theorem C2_merge_isolation:
  assumes "colA \<noteq> colB"
  shows "storedCell (mergeCell d colB y (mergeCell d colA x res)) d colA = Some x
       \<and> storedCell (mergeCell d colB y (mergeCell d colA x res)) d colB = Some y
       \<and> storedCell (mergeCell d colA x (mergeCell d colB y res)) d colA = Some x
       \<and> storedCell (mergeCell d colA x (mergeCell d colB y res)) d colB = Some y
       \<and> mergeCell d colB y (mergeCell d colA x res) = mergeCell d colA x (mergeCell d colB y res)
       \<and> lookupCell rt (mergeCell d colB y (mergeCell d colA x res)) d colA = Inr (CellValue x)
       \<and> lookupCell rt (mergeCell d colB y (mergeCell d colA x res)) d colB = Inr (CellValue y)
       \<and> lookupCell rt (mergeCell d colA x (mergeCell d colB y res)) d colA = Inr (CellValue x)
       \<and> lookupCell rt (mergeCell d colA x (mergeCell d colB y res)) d colB = Inr (CellValue y)"
proof -
  have stored: "storedCell (mergeCell d colB y (mergeCell d colA x res)) d colA = Some x
       \<and> storedCell (mergeCell d colB y (mergeCell d colA x res)) d colB = Some y
       \<and> storedCell (mergeCell d colA x (mergeCell d colB y res)) d colA = Some x
       \<and> storedCell (mergeCell d colA x (mergeCell d colB y res)) d colB = Some y
       \<and> mergeCell d colB y (mergeCell d colA x res) = mergeCell d colA x (mergeCell d colB y res)"
    using assms by (auto simp add: storedCell_def mergeCell_def fun_upd_twist split: option.splits)
  then show ?thesis
    by (simp add: lookupCell_stored)
qed

theorem C2_merge_isolation_witness:
  "\<forall>rt. storedCell (mergeCell ''doc1'' ''colB'' cellY (mergeCell ''doc1'' ''colA'' cellX Map.empty))
       ''doc1'' ''colA'' = Some cellX
   \<and> storedCell (mergeCell ''doc1'' ''colA'' cellX (mergeCell ''doc1'' ''colB'' cellY Map.empty))
       ''doc1'' ''colB'' = Some cellY
   \<and> lookupCell rt (mergeCell ''doc1'' ''colB'' cellY (mergeCell ''doc1'' ''colA'' cellX Map.empty))
       ''doc1'' ''colA'' = Inr (CellValue cellX)"
proof
  fix rt
  show "storedCell (mergeCell ''doc1'' ''colB'' cellY (mergeCell ''doc1'' ''colA'' cellX Map.empty))
       ''doc1'' ''colA'' = Some cellX
   \<and> storedCell (mergeCell ''doc1'' ''colA'' cellX (mergeCell ''doc1'' ''colB'' cellY Map.empty))
       ''doc1'' ''colB'' = Some cellY
   \<and> lookupCell rt (mergeCell ''doc1'' ''colB'' cellY (mergeCell ''doc1'' ''colA'' cellX Map.empty))
       ''doc1'' ''colA'' = Inr (CellValue cellX)"
    using C2_merge_isolation [where colA = "''colA''" and colB = "''colB''" and d = "''doc1''"
        and x = cellX and y = cellY and res = Map.empty and rt = rt]
    by simp
qed

section \<open>Document removal\<close>

text \<open>
  C6. Deletion cascade. Removing document \<open>d\<close> removes the row of \<open>d\<close> from the result
  store and leaves every other row as it was; the cell selection is cleared when it
  referred to \<open>d\<close> (and kept otherwise).
\<close>

theorem C6_deletion_cascade:
  "results (handleRemoveDoc d s) = (results s)(d := None)
   \<and> selectedCell (handleRemoveDoc d s) =
       (if map_option fst (selectedCell s) = Some d then None else selectedCell s)"
  by (simp add: handleRemoveDoc_def Let_def)

section \<open>CSV export lemmas\<close>

lemma escapeQuotes_concat:
  "escapeQuotes v = concat (map (\<lambda>ch. if ch = dq then [dq, dq] else [ch]) v)"
  by (induction v) simp_all

lemma join_Cons: "join sep (x # xs) = x @ concat (map (\<lambda>y. sep @ y) xs)"
  by (induction xs arbitrary: x) simp_all

text \<open>
  Where no id is a property name of \<open>Object.prototype\<close> the export does not throw. A field
  is, between two double quotes, the value of the stored cell with every double quote
  doubled, or nothing when the store holds no cell; a row is the document name followed,
  for every column, by a comma and the field; the file is the header and the rows, each
  row after a newline.
\<close>

lemma cellField_plain:
  assumes "\<not> inheritedKey (doc_id doc)" "\<not> inheritedKey (col_id col)"
  shows "cellField rt res doc col =
     Inr ([dq] @ (case storedCell res (doc_id doc) (col_id col) of
                    Some cell \<Rightarrow> concat (map (\<lambda>ch. if ch = dq then [dq, dq] else [ch]) (cell_value cell))
                  | None \<Rightarrow> []) @ [dq])"
  using assms
  by (auto simp add: cellField_def lookupCell_def storedCell_def escapeQuotes_concat
      split: option.splits)

lemma pushFields_plain:
  assumes "\<not> inheritedKey (doc_id doc)" "list_all (\<lambda>col. \<not> inheritedKey (col_id col)) cols"
  shows "pushFields rt res doc cols acc =
     Inr (acc @ map (\<lambda>col. [dq] @ (case storedCell res (doc_id doc) (col_id col) of
                    Some cell \<Rightarrow> concat (map (\<lambda>ch. if ch = dq then [dq, dq] else [ch]) (cell_value cell))
                  | None \<Rightarrow> []) @ [dq]) cols)"
  using assms
proof (induction cols arbitrary: acc)
  case Nil
  then show ?case by simp
next
  case (Cons col cols)
  from Cons.prems have col: "\<not> inheritedKey (col_id col)"
    and rest: "list_all (\<lambda>col. \<not> inheritedKey (col_id col)) cols"
    by simp_all
  show ?case
    using cellField_plain [OF Cons.prems(1) col] Cons.IH [OF Cons.prems(1) rest] by simp
qed

lemma csvRows_plain:
  assumes "list_all (\<lambda>doc. \<not> inheritedKey (doc_id doc)) docs"
    and "list_all (\<lambda>col. \<not> inheritedKey (col_id col)) cols"
  shows "csvRows rt docs cols res =
     Inr (map (\<lambda>doc. doc_name doc @ concat (map (\<lambda>col. '','' @ [dq] @
              (case storedCell res (doc_id doc) (col_id col) of
                 Some cell \<Rightarrow> concat (map (\<lambda>ch. if ch = dq then [dq, dq] else [ch]) (cell_value cell))
               | None \<Rightarrow> []) @ [dq]) cols)) docs)"
  using assms
proof (induction docs)
  case Nil
  then show ?case by simp
next
  case (Cons doc docs)
  from Cons.prems have doc: "\<not> inheritedKey (doc_id doc)"
    and rest: "list_all (\<lambda>doc. \<not> inheritedKey (doc_id doc)) docs"
    by simp_all
  show ?case
    using pushFields_plain [OF doc Cons.prems(2)] Cons.IH [OF rest Cons.prems(2)]
    by (simp add: rowData_def join_Cons comp_def)
qed

lemma handleExportCSV_plain:
  assumes "list_all (\<lambda>doc. \<not> inheritedKey (doc_id doc)) docs"
    and "list_all (\<lambda>col. \<not> inheritedKey (col_id col)) cols"
  shows "handleExportCSV rt docs cols res =
     Inr (if docs = [] then None
          else Some ((''Document Name'' @ concat (map (\<lambda>col. '','' @ col_name col) cols))
            @ concat (map (\<lambda>doc. [CHR 0x0A] @ doc_name doc @ concat (map (\<lambda>col. '','' @ [dq] @
              (case storedCell res (doc_id doc) (col_id col) of
                 Some cell \<Rightarrow> concat (map (\<lambda>ch. if ch = dq then [dq, dq] else [ch]) (cell_value cell))
               | None \<Rightarrow> []) @ [dq]) cols)) docs)))"
  using csvRows_plain [OF assms]
  by (simp add: handleExportCSV_def headerRow_def join_Cons comp_def)

lemma export_example:
  "handleExportCSV rt [docA, docB] [colX] [''a'' \<mapsto> [''x'' \<mapsto> Some cellY]] = Inr (Some exportExample)"
  by (simp add: handleExportCSV_def rowData_def cellField_def lookupCell_def headerRow_def
      exportExample_def docA_def docB_def colX_def cellY_def quotedExample_def dq_def)

text \<open>
  C7. CSV export rendering does not hold on every store: the test \<open>cell ? ... : ""\<close> is
  made on \<open>results[doc.id]?.[col.id]\<close>, which also finds what a row inherits from
  \<open>Object.prototype\<close>. In the project \<open>ownerProject\<close> the cell of document \<open>a\<close> and the
  column with id \<open>constructor\<close> is missing and has to render as the empty string; the
  lookup yields a built-in function, \<open>cell.value\<close> is undefined, and the export ends with
  a \<open>TypeError\<close> instead of producing a file.
\<close>

theorem C7_inherited_key_throws:
  "\<forall>rt. storedCell (sp_results ownerProject) (doc_id docA) (col_id colOwner) = None
     \<and> lookupCell rt (sp_results ownerProject) (doc_id docA) (col_id colOwner) = Inr (Builtin True)
     \<and> cellField rt (sp_results ownerProject) docA colOwner = Inl TypeError
     \<and> handleExportCSV rt (sp_documents ownerProject) (sp_columns ownerProject)
         (sp_results ownerProject) = Inl TypeError"
  by (simp add: ownerProject_def storedCell_def handleExportCSV_def rowData_def cellField_def
      lookupCell_def docA_def colX_def colOwner_def)

section \<open>Verification\<close>

text \<open>
  C9. Verifying a cell is a status overlay. With a cell selected, if the store holds a
  non-null cell for the selected pair, \<open>handleVerifyCell\<close> succeeds, changes nothing but
  the result store, sets the review status of that cell to \<open>verified\<close>, keeps its value,
  confidence, quote, page and reasoning, keeps the set of documents with a row, and keeps
  every other entry. If the store holds no cell for the pair the operation does not
  succeed: the non-null entry is needed.
\<close>

theorem C9_verify_overlay:
  assumes "selectedCell s = Some (d, c)"
  shows "case storedCell (results s) d c of
           Some cell \<Rightarrow>
             (\<exists>s' cell'. handleVerifyCell rt s = Inr s'
                \<and> s'\<lparr>results := results s\<rparr> = s
                \<and> storedCell (results s') d c = Some cell'
                \<and> lookupCell rt (results s') d c = Inr (CellValue cell')
                \<and> cell_status cell' = Some Verified
                \<and> cell_value cell' = cell_value cell \<and> confidence cell' = confidence cell
                \<and> quote cell' = quote cell \<and> page cell' = page cell
                \<and> reasoning cell' = reasoning cell
                \<and> dom (results s') = dom (results s)
                \<and> (\<forall>d' c'. (d', c') \<noteq> (d, c) \<longrightarrow>
                      entry (results s') d' c' = entry (results s) d' c'))
         | None \<Rightarrow> isl (handleVerifyCell rt s)"
  using assms
  by (auto simp add: handleVerifyCell_def storedCell_def lookupCell_def entry_def
      split: option.splits sum.splits)

theorem C9_verify_overlay_witness:
  "\<forall>rt. selectedCell verifyState = Some (''a'', ''x'')
   \<and> storedCell (results verifyState) ''a'' ''x'' = Some cellX
   \<and> (\<exists>s'. handleVerifyCell rt verifyState = Inr s'
          \<and> map_option cell_status (storedCell (results s') ''a'' ''x'') = Some (Some Verified)
          \<and> map_option cell_value (storedCell (results s') ''a'' ''x'') = Some ''12 months'')"
proof
  fix rt
  have sel: "selectedCell verifyState = Some (''a'', ''x'')"
    by (simp add: verifyState_def initialState_def)
  have cell: "storedCell (results verifyState) ''a'' ''x'' = Some cellX"
    by (simp add: verifyState_def initialState_def storedCell_def)
  from C9_verify_overlay [OF sel, of rt] cell
  show "selectedCell verifyState = Some (''a'', ''x'')
   \<and> storedCell (results verifyState) ''a'' ''x'' = Some cellX
   \<and> (\<exists>s'. handleVerifyCell rt verifyState = Inr s'
          \<and> map_option cell_status (storedCell (results s') ''a'' ''x'') = Some (Some Verified)
          \<and> map_option cell_value (storedCell (results s') ''a'' ''x'') = Some ''12 months'')"
    using sel by (auto simp add: cellX_def)
qed

section \<open>Column library lemmas\<close>





section \<open>Starting a run\<close>

text \<open>A new controller is never aborted, so every planned task is dispatched.\<close>

lemma map_filter_taskStart:
  "\<not> signalAborted s n \<Longrightarrow> List.map_filter (taskStart n s) ts = map (\<lambda>t. (n, fst t, snd t)) ts"
  by (induction ts) (simp_all add: List.map_filter_def taskStart_def)

lemma abortPrevious_fields [simp]:
  "length (controllers (abortPrevious s)) = length (controllers s)"
  "columns (abortPrevious s) = columns s"
  "inflight (abortPrevious s) = inflight s"
  "awaiting (abortPrevious s) = awaiting s"
  "results (abortPrevious s) = results s"
  by (simp_all add: abortPrevious_def abort_def split: option.splits)

lemma processExtraction_dispatch:
  assumes "tasks rt docs cols cr f = Inr ts"
  shows "processExtraction rt cr docs cols f s =
     (abortPrevious s)\<lparr>controllers := controllers (abortPrevious s) @ [False],
        abortControllerRef := Some (length (controllers s)),
        isProcessing := True,
        columns := markTargets Extracting cols (columns s),
        inflight := inflight s @ map (\<lambda>t. (length (controllers s), fst t, snd t)) ts,
        awaiting := awaiting s @ [(length (controllers s), cols)]\<rparr>"
proof -
  let ?s1 = "abortPrevious s"
  let ?s3 = "?s1\<lparr>controllers := controllers ?s1 @ [False],
        abortControllerRef := Some (length (controllers ?s1)),
        isProcessing := True,
        columns := markTargets Extracting cols (columns ?s1)\<rparr>"
  have "\<not> signalAborted ?s3 (length (controllers ?s1))"
    by (simp add: signalAborted_def nth_append)
  from map_filter_taskStart [OF this]
  show ?thesis
    by (simp add: processExtraction_def Let_def assms)
qed

text \<open>
  When a lookup of the planning loops throws, the run ends in its \<open>finally\<close> block: the
  previous run is cancelled, no task is dispatched and nothing awaits a settlement.
\<close>

lemma processExtraction_throws:
  assumes "tasks rt docs cols cr f = Inl e"
  shows "processExtraction rt cr docs cols f s =
     (abortPrevious s)\<lparr>controllers := controllers (abortPrevious s) @ [False],
        abortControllerRef := None,
        isProcessing := False,
        columns := resetExtracting (markTargets Extracting cols (columns s))\<rparr>"
  by (simp add: processExtraction_def Let_def assms finallyBlock_def)

lemma controllers_processExtraction:
  "controllers (processExtraction rt cr docs cols f s) = controllers (abortPrevious s) @ [False]"
proof (cases "tasks rt docs cols cr f")
  case (Inl e)
  then show ?thesis by (simp add: processExtraction_throws)
next
  case (Inr ts)
  then show ?thesis by (simp add: processExtraction_dispatch)
qed

lemma results_processExtraction:
  "results (processExtraction rt cr docs cols f s) = results s"
proof (cases "tasks rt docs cols cr f")
  case (Inl e)
  then show ?thesis by (simp add: processExtraction_throws)
next
  case (Inr ts)
  then show ?thesis by (simp add: processExtraction_dispatch)
qed

section \<open>Cancellation\<close>

text \<open>A cancellation flag, once set, stays set through every handler and continuation.\<close>

lemma signalAborted_abort: "signalAborted s ctl \<Longrightarrow> signalAborted (abort c s) ctl"
  by (cases "c = ctl") (simp_all add: signalAborted_def abort_def)

lemma length_controllers_abort [simp]: "length (controllers (abort c s)) = length (controllers s)"
  by (simp add: abort_def)

lemma signalAborted_results: "signalAborted (s\<lparr>results := r\<rparr>) ctl = signalAborted s ctl"
  by (simp add: signalAborted_def)

lemma signalAborted_processExtraction:
  "signalAborted s ctl \<Longrightarrow> signalAborted (processExtraction rt cr docs cols f s) ctl"
proof -
  assume a: "signalAborted s ctl"
  have "signalAborted (abortPrevious s) ctl"
    using a by (simp add: abortPrevious_def signalAborted_abort split: option.splits)
  then have "ctl < length (controllers (abortPrevious s) @ [False])
      \<and> (controllers (abortPrevious s) @ [False]) ! ctl"
    by (simp add: signalAborted_def nth_append)
  then show ?thesis
    by (simp add: controllers_processExtraction signalAborted_def)
qed

lemma signalAborted_handleStopExtraction:
  "signalAborted s ctl \<Longrightarrow> signalAborted (handleStopExtraction s) ctl"
  using signalAborted_abort [of s ctl]
  by (auto simp add: handleStopExtraction_def signalAborted_def split: option.splits)

lemma controllers_taskResume [simp]: "controllers (taskResume c d k outcome s) = controllers s"
  by (simp add: taskResume_def split: sum.splits)

lemma controllers_runSettled [simp]: "controllers (runSettled c cols s) = controllers s"
  by (simp add: runSettled_def finallyBlock_def Let_def)

lemma controllers_handleRemoveDoc [simp]: "controllers (handleRemoveDoc d s) = controllers s"
  by (simp add: handleRemoveDoc_def Let_def)

lemma controllers_handleToggleDocSelection [simp]:
  "controllers (handleToggleDocSelection d s) = controllers s"
  by (simp add: handleToggleDocSelection_def)

lemma controllers_handleCellClick [simp]: "controllers (handleCellClick rt d c s) = controllers s"
  by (simp add: handleCellClick_def split: sum.splits)

lemma signalAborted_step:
  "step rt e s = Some s' \<Longrightarrow> signalAborted s ctl \<Longrightarrow> signalAborted s' ctl"
proof (cases e)
  case RunAnalysis
  assume "step rt e s = Some s'" "signalAborted s ctl"
  with RunAnalysis show ?thesis
    by (auto simp add: handleRunAnalysis_def signalAborted_processExtraction)
next
  case RerunSelected
  assume "step rt e s = Some s'" "signalAborted s ctl"
  with RerunSelected show ?thesis
    by (auto simp add: handleRerunSelected_def Let_def signalAborted_results
        intro!: signalAborted_processExtraction)
next
  case StopExtraction
  assume "step rt e s = Some s'" "signalAborted s ctl"
  with StopExtraction show ?thesis
    by (auto simp add: signalAborted_handleStopExtraction)
next
  case (ClientReturns c d k outcome)
  assume "step rt e s = Some s'" "signalAborted s ctl"
  with ClientReturns show ?thesis
    by (auto simp add: signalAborted_def split: if_splits)
next
  case (AllSettled c)
  assume "step rt e s = Some s'" "signalAborted s ctl"
  with AllSettled show ?thesis
    by (auto simp add: signalAborted_def split: if_splits option.splits)
next
  case (RemoveDoc d)
  assume "step rt e s = Some s'" "signalAborted s ctl"
  with RemoveDoc show ?thesis
    by (auto simp add: signalAborted_def)
next
  case (ToggleDocSelection d)
  assume "step rt e s = Some s'" "signalAborted s ctl"
  with ToggleDocSelection show ?thesis
    by (auto simp add: signalAborted_def)
next
  case (CellClick d c)
  assume "step rt e s = Some s'" "signalAborted s ctl"
  with CellClick show ?thesis
    by (auto simp add: signalAborted_def)
qed

lemma signalAborted_exec:
  "exec rt es s = Some s' \<Longrightarrow> signalAborted s ctl \<Longrightarrow> signalAborted s' ctl"
proof (induction es arbitrary: s)
  case Nil
  then show ?case by simp
next
  case (Cons e es)
  then obtain t where t: "step rt e s = Some t" and rest: "exec rt es t = Some s'"
    by (auto split: option.splits)
  show ?case
    by (rule Cons.IH [OF rest signalAborted_step [OF t Cons.prems(2)]])
qed

text \<open>
  Where every in-flight task belongs to a cancelled run or to the active one, \<open>stop()\<close>
  signals the token of every task in flight.
\<close>

lemma stop_signals_inflight:
  assumes "inflightOk s" "t \<in> set (inflight s)"
  shows "signalAborted (handleStopExtraction s) (fst t)"
proof -
  from assms have "signalAborted s (fst t) \<or>
      (abortControllerRef s = Some (fst t) \<and> fst t < length (controllers s))"
    by (simp add: inflightOk_def list_all_iff)
  then show ?thesis
  proof
    assume "signalAborted s (fst t)"
    then show ?thesis by (rule signalAborted_handleStopExtraction)
  next
    assume "abortControllerRef s = Some (fst t) \<and> fst t < length (controllers s)"
    then show ?thesis
      by (simp add: handleStopExtraction_def abort_def signalAborted_def)
  qed
qed

section \<open>Evaluating the examples\<close>

lemmas eval_defs = handler_defs exState_def lookupCell_def storedCell_def mergeCell_def docA_def docB_def colX_def

lemma stopped_inflight:
  "inflight (handleStopExtraction (handleRunAnalysis rt exState)) = [(0, docA, colX)]"
  by (simp add: eval_defs)

lemma stopped_aborted:
  "signalAborted (handleStopExtraction (handleRunAnalysis rt exState)) 0"
  by (simp add: eval_defs)

lemma stopped_results:
  "results (handleStopExtraction (handleRunAnalysis rt exState)) = Map.empty"
  by (simp add: eval_defs)

text \<open>
  C3. Cancellation discards. If \<open>stop()\<close> has signalled the token of a run, then after any
  further events the successful return of the client call of a task of that run changes
  nothing but the list of in-flight tasks: the result is not merged. A signalled token at
  the start of a task makes the task return before calling the client, and a signalled
  token after the call makes the rest of the task leave the state as it is.
\<close>

theorem C3_cancellation_discards:
  assumes stop: "signalAborted (handleStopExtraction s) ctl"
      and later: "exec rt es (handleStopExtraction s) = Some s1"
      and returns: "step rt (ClientReturns ctl doc col (Inr data)) s1 = Some s2"
  shows "s2 = s1\<lparr>inflight := remove1 (ctl, doc, col) (inflight s1)\<rparr>
       \<and> results s2 = results s1
       \<and> taskResume ctl doc col (Inr data) s1 = s1
       \<and> taskStart ctl s1 (doc, col) = None"
proof -
  have ab: "signalAborted s1 ctl"
    using signalAborted_exec [OF later stop] .
  then have ab': "signalAborted (s1\<lparr>inflight := remove1 (ctl, doc, col) (inflight s1)\<rparr>) ctl"
    by (simp add: signalAborted_def)
  from returns have "s2 = taskResume ctl doc col (Inr data)
      (s1\<lparr>inflight := remove1 (ctl, doc, col) (inflight s1)\<rparr>)"
    by (simp split: if_splits)
  with ab' have "s2 = s1\<lparr>inflight := remove1 (ctl, doc, col) (inflight s1)\<rparr>"
    by (simp add: taskResume_def)
  moreover from ab have "taskResume ctl doc col (Inr data) s1 = s1"
    by (simp add: taskResume_def)
  moreover from ab have "taskStart ctl s1 (doc, col) = None"
    by (simp add: taskStart_def)
  ultimately show ?thesis by simp
qed

theorem C3_cancellation_discards_witness:
  "\<forall>rt. signalAborted (handleStopExtraction (handleRunAnalysis rt exState)) 0
   \<and> exec rt [] (handleStopExtraction (handleRunAnalysis rt exState))
       = Some (handleStopExtraction (handleRunAnalysis rt exState))
   \<and> (\<exists>s2. step rt (ClientReturns 0 docA colX (Inr cellX))
               (handleStopExtraction (handleRunAnalysis rt exState)) = Some s2
           \<and> results s2 = Map.empty)"
proof
  fix rt
  let ?s1 = "handleStopExtraction (handleRunAnalysis rt exState)"
  have later: "exec rt [] ?s1 = Some ?s1" by simp
  obtain s2 where s2: "step rt (ClientReturns 0 docA colX (Inr cellX)) ?s1 = Some s2"
    by (simp add: stopped_inflight)
  from C3_cancellation_discards [OF stopped_aborted later s2]
  have "results s2 = Map.empty" by (simp add: stopped_results)
  with s2 stopped_aborted later
  show "signalAborted ?s1 0 \<and> exec rt [] ?s1 = Some ?s1
   \<and> (\<exists>s2. step rt (ClientReturns 0 docA colX (Inr cellX)) ?s1 = Some s2
           \<and> results s2 = Map.empty)"
    by blast
qed

section \<open>Task failure\<close>

text \<open>Nothing reads the console: the handlers and continuations commute with forgetting it.\<close>

lemma silent_abortPrevious: "silent (abortPrevious (silent s)) = silent (abortPrevious s)"
  by (simp add: abortPrevious_def silent_def abort_def split: option.splits)

lemma silent_processExtraction:
  "silent (processExtraction rt cr docs cols f (silent s)) = silent (processExtraction rt cr docs cols f s)"
proof -
  have "abortPrevious (silent s) = silent (abortPrevious s)"
    by (simp add: abortPrevious_def silent_def abort_def split: option.splits)
  then show ?thesis
  proof (cases "tasks rt docs cols cr f")
    case (Inl e)
    then show ?thesis
      by (simp add: processExtraction_throws \<open>abortPrevious (silent s) = silent (abortPrevious s)\<close>)
         (simp add: silent_def)
  next
    case (Inr ts)
    then show ?thesis
      by (simp add: processExtraction_dispatch \<open>abortPrevious (silent s) = silent (abortPrevious s)\<close>)
         (simp add: silent_def)
  qed
qed

lemma silent_results [simp]: "results (silent s) = results s"
  and silent_documents [simp]: "documents (silent s) = documents s"
  and silent_columns [simp]: "columns (silent s) = columns s"
  and silent_selectedDocIds [simp]: "selectedDocIds (silent s) = selectedDocIds s"
  and silent_inflight [simp]: "inflight (silent s) = inflight s"
  and silent_awaiting [simp]: "awaiting (silent s) = awaiting s"
  by (simp_all add: silent_def)

lemma silent_update_results: "silent s\<lparr>results := r\<rparr> = silent (s\<lparr>results := r\<rparr>)"
  by (simp add: silent_def)

lemma silent_update_inflight: "silent s\<lparr>inflight := r\<rparr> = silent (s\<lparr>inflight := r\<rparr>)"
  by (simp add: silent_def)

lemma silent_update_awaiting: "silent s\<lparr>awaiting := r\<rparr> = silent (s\<lparr>awaiting := r\<rparr>)"
  by (simp add: silent_def)

lemma silent_idem [simp]: "silent (silent s) = silent s"
  by (simp add: silent_def)

lemma silent_taskResume:
  "silent (taskResume c d k outcome (silent s)) = silent (taskResume c d k outcome s)"
  by (simp add: taskResume_def silent_def signalAborted_def split: sum.splits)

lemma silent_runSettled:
  "silent (runSettled c cols (silent s)) = silent (runSettled c cols s)"
  by (simp add: runSettled_def finallyBlock_def silent_def signalAborted_def Let_def)

lemma silent_step: "map_option silent (step rt e (silent s)) = map_option silent (step rt e s)"
proof (cases e)
  case RunAnalysis
  then show ?thesis by (simp add: handleRunAnalysis_def silent_processExtraction)
next
  case RerunSelected
  then show ?thesis
    by (simp add: handleRerunSelected_def Let_def silent_update_results silent_processExtraction)
next
  case StopExtraction
  then show ?thesis
    by (simp add: handleStopExtraction_def silent_def abort_def split: option.splits)
next
  case (ClientReturns c d k outcome)
  then show ?thesis
    by (simp add: silent_update_inflight silent_taskResume)
next
  case (AllSettled c)
  then show ?thesis
    by (simp add: silent_update_awaiting silent_runSettled split: option.splits)
next
  case (RemoveDoc d)
  then show ?thesis by (simp add: handleRemoveDoc_def silent_def Let_def)
next
  case (ToggleDocSelection d)
  then show ?thesis by (simp add: handleToggleDocSelection_def silent_def)
next
  case (CellClick d c)
  then show ?thesis
    by (simp add: handleCellClick_def silent_def split: sum.splits)
qed

lemma silent_exec:
  "silent s = silent t \<Longrightarrow> map_option silent (exec rt es s) = map_option silent (exec rt es t)"
proof (induction es arbitrary: s t)
  case Nil
  then show ?case by simp
next
  case (Cons e es)
  have eq: "map_option silent (step rt e s) = map_option silent (step rt e t)"
    using silent_step [of rt e s] silent_step [of rt e t] Cons.prems by simp
  show ?case
  proof (cases "step rt e s")
    case None
    with eq have "step rt e t = None" by simp
    with None show ?thesis by simp
  next
    case (Some s')
    with eq obtain t' where t': "step rt e t = Some t'" and "silent s' = silent t'"
      by (cases "step rt e t") auto
    with Cons.IH [of s' t'] Some show ?thesis by simp
  qed
qed

text \<open>
  C8. Task failure isolation. When the client call of an in-flight task fails, the task
  logs the failure and does nothing else: no cell is written, no token is signalled, the
  active run stays the active run. From there on the application behaves, the console
  apart, exactly as from the state in which the task has merely left the in-flight list:
  every other task is merged or discarded as it would have been, and the run settles as
  it would have.
\<close>

theorem C8_failure_isolation:
  assumes "step rt (ClientReturns ctl doc col (Inl e)) s = Some s'"
  shows "s' = s\<lparr>inflight := remove1 (ctl, doc, col) (inflight s),
                console := console s @ [(failureMessage doc col, e)]\<rparr>
       \<and> results s' = results s
       \<and> controllers s' = controllers s
       \<and> abortControllerRef s' = abortControllerRef s
       \<and> map_option silent (exec rt es s')
           = map_option silent (exec rt es (s\<lparr>inflight := remove1 (ctl, doc, col) (inflight s)\<rparr>))"
proof -
  from assms have s': "s' = s\<lparr>inflight := remove1 (ctl, doc, col) (inflight s),
                console := console s @ [(failureMessage doc col, e)]\<rparr>"
    by (simp add: taskResume_def split: if_splits)
  then have "silent s' = silent (s\<lparr>inflight := remove1 (ctl, doc, col) (inflight s)\<rparr>)"
    by (simp add: silent_def)
  from silent_exec [OF this] s' show ?thesis by simp
qed

lemma twoDoc_inflight:
  "inflight (handleRunAnalysis rt twoDocState) = [(0, docA, colX), (0, docB, colX)]"
  by (simp add: eval_defs twoDocState_def)

theorem C8_failure_isolation_witness:
  "\<forall>rt. \<exists>s'. step rt (ClientReturns 0 docA colX (Inl ''rate limit'')) (handleRunAnalysis rt twoDocState) = Some s'
      \<and> results s' = Map.empty
      \<and> console s' = [(''Failed to extract Term for A.pdf'', ''rate limit'')]
      \<and> inflight s' = [(0, docB, colX)]
      \<and> \<not> signalAborted s' 0"
proof
  fix rt
  obtain s' where s': "step rt (ClientReturns 0 docA colX (Inl ''rate limit'')) (handleRunAnalysis rt twoDocState) = Some s'"
    by (simp add: twoDoc_inflight)
  from C8_failure_isolation [OF s', of "[]"]
  have "s' = (handleRunAnalysis rt twoDocState)\<lparr>inflight := remove1 (0, docA, colX) (inflight (handleRunAnalysis rt twoDocState)),
                console := console (handleRunAnalysis rt twoDocState) @ [(failureMessage docA colX, ''rate limit'')]\<rparr>"
    by simp
  then have "results s' = Map.empty \<and> console s' = [(''Failed to extract Term for A.pdf'', ''rate limit'')]
      \<and> inflight s' = [(0, docB, colX)] \<and> \<not> signalAborted s' 0"
    by (simp add: twoDoc_inflight)
       (simp add: handler_defs twoDocState_def failureMessage_def lookupCell_def docA_def colX_def docB_def)
  with s' show "\<exists>s'. step rt (ClientReturns 0 docA colX (Inl ''rate limit'')) (handleRunAnalysis rt twoDocState) = Some s'
      \<and> results s' = Map.empty
      \<and> console s' = [(''Failed to extract Term for A.pdf'', ''rate limit'')]
      \<and> inflight s' = [(0, docB, colX)]
      \<and> \<not> signalAborted s' 0"
    by blast
qed

section \<open>Column status\<close>

lemma markTargets_keeps_error:
  "c \<in> set (markTargets st cols prev) \<Longrightarrow> col_status c = Error \<Longrightarrow> st \<noteq> Error \<Longrightarrow> c \<in> set prev"
  by (auto simp add: markTargets_def split: if_splits)

lemma resetExtracting_keeps_error:
  "c \<in> set (resetExtracting prev) \<Longrightarrow> col_status c = Error \<Longrightarrow> c \<in> set prev"
  by (auto simp add: resetExtracting_def split: if_splits)

lemma columns_processExtraction:
  "columns (processExtraction rt cr docs cols f s) =
     (case tasks rt docs cols cr f of
        Inl e \<Rightarrow> resetExtracting (markTargets Extracting cols (columns s))
      | Inr ts \<Rightarrow> markTargets Extracting cols (columns s))"
  by (simp add: processExtraction_dispatch processExtraction_throws split: sum.splits)

lemma processExtraction_keeps_error:
  assumes "c \<in> set (columns (processExtraction rt cr docs cols f s))" "col_status c = Error"
  shows "c \<in> set (columns s)"
proof (cases "tasks rt docs cols cr f")
  case (Inl e)
  with assms(1) have "c \<in> set (resetExtracting (markTargets Extracting cols (columns s)))"
    by (simp add: columns_processExtraction)
  from resetExtracting_keeps_error [OF this assms(2)]
  have "c \<in> set (markTargets Extracting cols (columns s))" .
  from markTargets_keeps_error [OF this assms(2)] show ?thesis by simp
next
  case (Inr ts)
  with assms(1) have "c \<in> set (markTargets Extracting cols (columns s))"
    by (simp add: columns_processExtraction)
  from markTargets_keeps_error [OF this assms(2)] show ?thesis by simp
qed

lemma columns_runSettled:
  "columns (runSettled ctl cols s) =
     (if signalAborted s ctl
      then (if abortControllerRef s = Some ctl then resetExtracting (columns s) else columns s)
      else (if abortControllerRef s = Some ctl
            then resetExtracting (markTargets Completed cols (columns s))
            else markTargets Completed cols (columns s)))"
  by (simp add: runSettled_def finallyBlock_def Let_def)

lemma markTargets_Completed_all:
  "list_all (\<lambda>c. isTarget cols c \<longrightarrow> col_status c = Completed) (markTargets Completed cols prev)"
  by (induction prev) (simp_all add: markTargets_def isTarget_def)

lemma resetExtracting_keeps_completed:
  "list_all (\<lambda>c. isTarget cols c \<longrightarrow> col_status c = Completed) prev \<Longrightarrow>
   list_all (\<lambda>c. isTarget cols c \<longrightarrow> col_status c = Completed) (resetExtracting prev)"
  by (induction prev) (auto simp add: resetExtracting_def isTarget_def)

lemma resetExtracting_none_left:
  "list_all (\<lambda>c. col_status c \<noteq> Extracting) (resetExtracting prev)"
  by (induction prev) (simp_all add: resetExtracting_def)

lemma step_keeps_error:
  "step rt e s = Some s' \<Longrightarrow> c \<in> set (columns s') \<Longrightarrow> col_status c = Error \<Longrightarrow> c \<in> set (columns s)"
proof (cases e)
  case RunAnalysis
  assume "step rt e s = Some s'" "c \<in> set (columns s')" "col_status c = Error"
  with RunAnalysis show ?thesis
    by (auto simp add: handleRunAnalysis_def dest: processExtraction_keeps_error split: if_splits)
next
  case RerunSelected
  assume "step rt e s = Some s'" "c \<in> set (columns s')" "col_status c = Error"
  with RerunSelected show ?thesis
    by (auto simp add: handleRerunSelected_def Let_def dest: processExtraction_keeps_error
        split: if_splits)
next
  case StopExtraction
  assume "step rt e s = Some s'" "c \<in> set (columns s')" "col_status c = Error"
  with StopExtraction show ?thesis
    by (auto simp add: handleStopExtraction_def abort_def split: option.splits)
next
  case (ClientReturns ctl d k outcome)
  assume "step rt e s = Some s'" "c \<in> set (columns s')" "col_status c = Error"
  with ClientReturns show ?thesis
    by (auto simp add: taskResume_def split: if_splits sum.splits)
next
  case (AllSettled ctl)
  assume "step rt e s = Some s'" "c \<in> set (columns s')" "col_status c = Error"
  with AllSettled show ?thesis
    by (auto simp add: columns_runSettled split: if_splits option.splits
        dest!: resetExtracting_keeps_error markTargets_keeps_error)
next
  case (RemoveDoc d)
  assume "step rt e s = Some s'" "c \<in> set (columns s')" "col_status c = Error"
  with RemoveDoc show ?thesis
    by (auto simp add: handleRemoveDoc_def Let_def split: if_splits)
next
  case (ToggleDocSelection d)
  assume "step rt e s = Some s'" "c \<in> set (columns s')" "col_status c = Error"
  with ToggleDocSelection show ?thesis
    by (auto simp add: handleToggleDocSelection_def split: if_splits)
next
  case (CellClick d k)
  assume "step rt e s = Some s'" "c \<in> set (columns s')" "col_status c = Error"
  with CellClick show ?thesis
    by (auto simp add: handleCellClick_def split: sum.splits if_splits)
qed

lemma exec_keeps_error:
  "exec rt es s = Some s' \<Longrightarrow> c \<in> set (columns s') \<Longrightarrow> col_status c = Error \<Longrightarrow> c \<in> set (columns s)"
proof (induction es arbitrary: s)
  case Nil
  then show ?case by simp
next
  case (Cons e es)
  then obtain t where t: "step rt e s = Some t" and rest: "exec rt es t = Some s'"
    by (auto split: option.splits)
  from Cons.IH [OF rest Cons.prems(2,3)] have "c \<in> set (columns t)" .
  from step_keeps_error [OF t this Cons.prems(3)] show ?case .
qed

text \<open>
  C4 (amended). Column status finalization. When every task of a run has finished and
  \<open>Promise.all\<close> resolves: if the token of the run was never signalled, every column of
  the target set has status \<open>completed\<close>; if the token was signalled and the run is still
  the one \<open>abortControllerRef\<close> points to (it was stopped, not replaced), every column at
  status \<open>extracting\<close> is reset to \<open>idle\<close>; if the token was signalled and a newer run has
  taken over the reference, the column statuses are left as they are. Over any sequence of
  events, a column with status \<open>error\<close> is a column that was there, with that status,
  before: the run controller never assigns \<open>error\<close>.
\<close>

theorem C4_status_finalization:
  "(step rt (AllSettled ctl) s = Some s' \<and> map_of (awaiting s) ctl = Some cols \<longrightarrow>
      (\<not> signalAborted s ctl \<longrightarrow>
         list_all (\<lambda>c. isTarget cols c \<longrightarrow> col_status c = Completed) (columns s'))
    \<and> (signalAborted s ctl \<and> abortControllerRef s = Some ctl \<longrightarrow>
         columns s' = resetExtracting (columns s)
         \<and> list_all (\<lambda>c. col_status c \<noteq> Extracting) (columns s'))
    \<and> (signalAborted s ctl \<and> abortControllerRef s \<noteq> Some ctl \<longrightarrow> columns s' = columns s))
   \<and> (exec rt es s = Some t \<longrightarrow>
        (\<forall>c \<in> set (columns t). col_status c = Error \<longrightarrow> c \<in> set (columns s)))"
proof -
  have "columns s' = columns (runSettled ctl cols s)"
    if "step rt (AllSettled ctl) s = Some s'" "map_of (awaiting s) ctl = Some cols"
    using that by (auto simp add: columns_runSettled signalAborted_def split: if_splits)
  moreover have "list_all (\<lambda>c. isTarget cols c \<longrightarrow> col_status c = Completed)
      (columns (runSettled ctl cols s))" if "\<not> signalAborted s ctl"
    using that
    by (simp add: columns_runSettled markTargets_Completed_all resetExtracting_keeps_completed)
  moreover have "columns (runSettled ctl cols s) = resetExtracting (columns s)
      \<and> list_all (\<lambda>c. col_status c \<noteq> Extracting) (columns (runSettled ctl cols s))"
    if "signalAborted s ctl" "abortControllerRef s = Some ctl"
    using that by (simp add: columns_runSettled resetExtracting_none_left)
  moreover have "columns (runSettled ctl cols s) = columns s"
    if "signalAborted s ctl" "abortControllerRef s \<noteq> Some ctl"
    using that by (simp add: columns_runSettled)
  ultimately show ?thesis
    using exec_keeps_error [of rt es s t] by auto
qed

lemma completedTrace_state: "exec rt completedTrace exState = Some completedRun"
  by (simp add: completedTrace_def completedRun_def eval_defs)

lemma stoppedTrace_state: "exec rt stoppedTrace exState = Some stoppedRun"
  by (simp add: stoppedTrace_def stoppedRun_def eval_defs)

lemma supersededTrace_state: "exec rt supersededTrace exState = Some supersededRun"
  by (simp add: supersededTrace_def supersededRun_def eval_defs)

text \<open>
  The claim as written fails for a run that has been replaced: the first run is stopped,
  a second one is started, the task of the first run returns and the first run settles.
  Its token is signalled, none of its tasks is in flight, and the column is still at
  \<open>extracting\<close>. The history reads no built-in: by \<open>supersededTrace_state\<close> it leads to
  the same state in every runtime.
\<close>

theorem C4_superseded_counterexample:
  "exec plainRuntime supersededTrace exState = Some supersededRun
   \<and> signalAborted supersededRun 0
   \<and> map fst (inflight supersededRun) = [1]
   \<and> map_option columns (step plainRuntime (AllSettled 0) supersededRun)
       = Some [colX\<lparr>col_status := Extracting\<rparr>]"
  by (simp add: supersededTrace_state) (simp add: supersededRun_def eval_defs)

theorem C4_status_finalization_witness:
  "\<forall>rt. (\<exists>s'. exec rt completedTrace exState = Some completedRun
       \<and> step rt (AllSettled 0) completedRun = Some s'
       \<and> map_of (awaiting completedRun) 0 = Some [colX] \<and> \<not> signalAborted completedRun 0
       \<and> list_all (\<lambda>c. isTarget [colX] c \<longrightarrow> col_status c = Completed) (columns s')
       \<and> map col_status (columns s') = [Completed])
   \<and> (\<exists>s'. exec rt stoppedTrace exState = Some stoppedRun
       \<and> step rt (AllSettled 0) stoppedRun = Some s'
       \<and> map_of (awaiting stoppedRun) 0 = Some [colX]
       \<and> signalAborted stoppedRun 0 \<and> abortControllerRef stoppedRun = Some 0
       \<and> columns s' = resetExtracting (columns stoppedRun)
       \<and> map col_status (columns s') = [Idle])
   \<and> (\<exists>s'. exec rt supersededTrace exState = Some supersededRun
       \<and> step rt (AllSettled 0) supersededRun = Some s'
       \<and> map_of (awaiting supersededRun) 0 = Some [colX]
       \<and> signalAborted supersededRun 0 \<and> abortControllerRef supersededRun = Some 1
       \<and> columns s' = columns supersededRun)
   \<and> (\<exists>t. exec rt supersededTrace exState = Some t
       \<and> (\<forall>c \<in> set (columns t). col_status c = Error \<longrightarrow> c \<in> set (columns exState)))"
proof
  fix rt
  have a: "\<exists>s'. exec rt completedTrace exState = Some completedRun
       \<and> step rt (AllSettled 0) completedRun = Some s'
       \<and> map_of (awaiting completedRun) 0 = Some [colX] \<and> \<not> signalAborted completedRun 0
       \<and> list_all (\<lambda>c. isTarget [colX] c \<longrightarrow> col_status c = Completed) (columns s')
       \<and> map col_status (columns s') = [Completed]"
  proof -
    have aw: "map_of (awaiting completedRun) 0 = Some [colX]"
      and na: "\<not> signalAborted completedRun 0"
      by (simp_all add: completedRun_def signalAborted_def)
    obtain s' where s': "step rt (AllSettled 0) completedRun = Some s'"
      by (simp add: completedRun_def exState_def initialState_def)
    then have "map col_status (columns s') = [Completed]"
      by (auto simp add: completedRun_def eval_defs)
    moreover from C4_status_finalization [of rt 0 completedRun s' "[colX]" "[]" completedRun] s' aw na
    have "list_all (\<lambda>c. isTarget [colX] c \<longrightarrow> col_status c = Completed) (columns s')"
      by simp
    ultimately show ?thesis
      using completedTrace_state s' aw na by (auto intro!: exI [of _ s'])
  qed
  have b: "\<exists>s'. exec rt stoppedTrace exState = Some stoppedRun
       \<and> step rt (AllSettled 0) stoppedRun = Some s'
       \<and> map_of (awaiting stoppedRun) 0 = Some [colX]
       \<and> signalAborted stoppedRun 0 \<and> abortControllerRef stoppedRun = Some 0
       \<and> columns s' = resetExtracting (columns stoppedRun)
       \<and> map col_status (columns s') = [Idle]"
  proof -
    have aw: "map_of (awaiting stoppedRun) 0 = Some [colX]"
      and ab: "signalAborted stoppedRun 0"
      and ref: "abortControllerRef stoppedRun = Some 0"
      by (simp_all add: stoppedRun_def signalAborted_def)
    obtain s' where s': "step rt (AllSettled 0) stoppedRun = Some s'"
      by (simp add: stoppedRun_def exState_def initialState_def)
    then have "map col_status (columns s') = [Idle]"
      by (auto simp add: stoppedRun_def eval_defs)
    moreover from C4_status_finalization [of rt 0 stoppedRun s' "[colX]" "[]" stoppedRun] s' aw ab ref
    have "columns s' = resetExtracting (columns stoppedRun)"
      by simp
    ultimately show ?thesis
      using stoppedTrace_state s' aw ab ref by (auto intro!: exI [of _ s'])
  qed
  have c: "\<exists>s'. exec rt supersededTrace exState = Some supersededRun
       \<and> step rt (AllSettled 0) supersededRun = Some s'
       \<and> map_of (awaiting supersededRun) 0 = Some [colX]
       \<and> signalAborted supersededRun 0 \<and> abortControllerRef supersededRun = Some 1
       \<and> columns s' = columns supersededRun"
  proof -
    have aw: "map_of (awaiting supersededRun) 0 = Some [colX]"
      and ab: "signalAborted supersededRun 0"
      and ref: "abortControllerRef supersededRun = Some 1"
      by (simp_all add: supersededRun_def signalAborted_def)
    obtain s' where s': "step rt (AllSettled 0) supersededRun = Some s'"
      by (simp add: supersededRun_def exState_def initialState_def)
    have "abortControllerRef supersededRun \<noteq> Some 0"
      using ref by simp
    with C4_status_finalization [of rt 0 supersededRun s' "[colX]" "[]" supersededRun] s' aw ab
    have "columns s' = columns supersededRun"
      by simp
    then show ?thesis
      using supersededTrace_state s' aw ab ref by (auto intro!: exI [of _ s'])
  qed
  have "\<forall>c \<in> set (columns supersededRun). col_status c = Error \<longrightarrow> c \<in> set (columns exState)"
    using C4_status_finalization [of rt 0 exState exState "[]" supersededTrace supersededRun]
      supersededTrace_state by simp
  with supersededTrace_state
  have d: "\<exists>t. exec rt supersededTrace exState = Some t
       \<and> (\<forall>c \<in> set (columns t). col_status c = Error \<longrightarrow> c \<in> set (columns exState))"
    by simp
  from a b c d show "(\<exists>s'. exec rt completedTrace exState = Some completedRun
       \<and> step rt (AllSettled 0) completedRun = Some s'
       \<and> map_of (awaiting completedRun) 0 = Some [colX] \<and> \<not> signalAborted completedRun 0
       \<and> list_all (\<lambda>c. isTarget [colX] c \<longrightarrow> col_status c = Completed) (columns s')
       \<and> map col_status (columns s') = [Completed])
   \<and> (\<exists>s'. exec rt stoppedTrace exState = Some stoppedRun
       \<and> step rt (AllSettled 0) stoppedRun = Some s'
       \<and> map_of (awaiting stoppedRun) 0 = Some [colX]
       \<and> signalAborted stoppedRun 0 \<and> abortControllerRef stoppedRun = Some 0
       \<and> columns s' = resetExtracting (columns stoppedRun)
       \<and> map col_status (columns s') = [Idle])
   \<and> (\<exists>s'. exec rt supersededTrace exState = Some supersededRun
       \<and> step rt (AllSettled 0) supersededRun = Some s'
       \<and> map_of (awaiting supersededRun) 0 = Some [colX]
       \<and> signalAborted supersededRun 0 \<and> abortControllerRef supersededRun = Some 1
       \<and> columns s' = columns supersededRun)
   \<and> (\<exists>t. exec rt supersededTrace exState = Some t
       \<and> (\<forall>c \<in> set (columns t). col_status c = Error \<longrightarrow> c \<in> set (columns exState)))"
    by (intro conjI)
qed

section \<open>Re-run of selected documents\<close>

lemma fold_delete:
  "fold (\<lambda>docId next. next(docId := None)) ds res = (\<lambda>d. if d \<in> set ds then None else res d)"
  by (induction ds arbitrary: res) (auto simp add: fun_eq_iff)

lemma signalAborted_abortPrevious:
  "abortControllerRef s = Some c \<Longrightarrow> c < length (controllers s) \<Longrightarrow> signalAborted (abortPrevious s) c"
  by (simp add: abortPrevious_def abort_def signalAborted_def)

lemma signalAborted_processExtraction_ref:
  assumes "abortControllerRef s = Some c" "c < length (controllers s)"
  shows "signalAborted (processExtraction rt cr docs cols f s) c"
proof -
  from signalAborted_abortPrevious [OF assms]
  have "c < length (controllers (abortPrevious s) @ [False])
      \<and> (controllers (abortPrevious s) @ [False]) ! c"
    by (simp add: signalAborted_def nth_append)
  then show ?thesis
    by (simp add: controllers_processExtraction signalAborted_def)
qed

lemma rerunInflight_ClientReturns:
  assumes st: "step rt (ClientReturns ctl doc col outcome) s = Some s'"
    and inv: "rerunInflight S s" and d: "d \<notin> S"
  shows "results s' d = results s d \<and> rerunInflight S s'"
proof -
  from st have mem: "(ctl, doc, col) \<in> set (inflight s)"
    and s': "s' = taskResume ctl doc col outcome (s\<lparr>inflight := remove1 (ctl, doc, col) (inflight s)\<rparr>)"
    by (simp_all split: if_splits)
  from inv mem have ok: "signalAborted s ctl \<or> doc_id doc \<in> S"
    by (auto simp add: rerunInflight_def)
  have res: "results s' d = results s d"
  proof (cases "signalAborted s ctl")
    case True
    then show ?thesis
      unfolding s' by (simp add: taskResume_def signalAborted_def split: sum.splits)
  next
    case False
    with ok d have "d \<noteq> doc_id doc" by auto
    then show ?thesis
      unfolding s' by (simp add: taskResume_def mergeCell_other_doc split: sum.splits)
  qed
  have "inflight s' = remove1 (ctl, doc, col) (inflight s)"
    unfolding s' by (simp add: taskResume_def split: sum.splits)
  then have sub: "set (inflight s') \<subseteq> set (inflight s)"
    by (simp add: set_remove1_subset)
  have ctl: "controllers s' = controllers s"
    unfolding s' by simp
  have "rerunInflight S s'"
    unfolding rerunInflight_def
  proof
    fix t assume "t \<in> set (inflight s')"
    with sub have "t \<in> set (inflight s)" by blast
    with inv have "signalAborted s (fst t) \<or> doc_id (fst (snd t)) \<in> S"
      by (simp add: rerunInflight_def)
    then show "signalAborted s' (fst t) \<or> doc_id (fst (snd t)) \<in> S"
      by (simp add: signalAborted_def ctl)
  qed
  with res show ?thesis by simp
qed

lemma rerunInflight_AllSettled:
  assumes st: "step rt (AllSettled ctl) s = Some s'" and inv: "rerunInflight S s"
  shows "results s' d = results s d \<and> rerunInflight S s'"
proof -
  from st obtain cols where
    s': "s' = runSettled ctl cols (s\<lparr>awaiting := filter (\<lambda>r. fst r \<noteq> ctl) (awaiting s)\<rparr>)"
    by (auto split: option.splits if_splits)
  have "results s' = results s" "inflight s' = inflight s" "controllers s' = controllers s"
    unfolding s' by (simp_all add: runSettled_def finallyBlock_def Let_def)
  then show ?thesis
    using inv by (simp add: rerunInflight_def signalAborted_def)
qed

lemma rerunInflight_StopExtraction:
  assumes inv: "rerunInflight S s"
  shows "results (handleStopExtraction s) d = results s d \<and> rerunInflight S (handleStopExtraction s)"
proof -
  have r: "results (handleStopExtraction s) = results s"
    and i: "inflight (handleStopExtraction s) = inflight s"
    by (simp_all add: handleStopExtraction_def abort_def split: option.splits)
  have "rerunInflight S (handleStopExtraction s)"
    unfolding rerunInflight_def i
  proof
    fix t assume "t \<in> set (inflight s)"
    with inv have "signalAborted s (fst t) \<or> doc_id (fst (snd t)) \<in> S"
      by (simp add: rerunInflight_def)
    then show "signalAborted (handleStopExtraction s) (fst t) \<or> doc_id (fst (snd t)) \<in> S"
      using signalAborted_handleStopExtraction [of s "fst t"] by blast
  qed
  with r show ?thesis by simp
qed

lemma rerunInflight_step:
  assumes e: "runEvent e" and st: "step rt e s = Some s'" and inv: "rerunInflight S s" and d: "d \<notin> S"
  shows "results s' d = results s d \<and> rerunInflight S s'"
proof (cases e)
  case (ClientReturns ctl doc col outcome)
  with st inv d show ?thesis
    using rerunInflight_ClientReturns [of rt ctl doc col outcome s s' S d] by simp
next
  case (AllSettled ctl)
  with st inv show ?thesis
    using rerunInflight_AllSettled [of rt ctl s s' S d] by simp
next
  case StopExtraction
  with st inv show ?thesis
    using rerunInflight_StopExtraction [of S s d] by simp
qed (use e in simp_all)

lemma rerunInflight_exec:
  assumes "list_all runEvent es" "exec rt es s = Some s'" "rerunInflight S s" "d \<notin> S"
  shows "results s' d = results s d"
  using assms
proof (induction es arbitrary: s)
  case Nil
  then show ?case by simp
next
  case (Cons e es)
  then obtain t where t: "step rt e s = Some t" and rest: "exec rt es t = Some s'"
    by (auto split: option.splits)
  from Cons.prems(1) have e: "runEvent e" and es: "list_all runEvent es"
    by simp_all
  from rerunInflight_step [OF e t Cons.prems(3,4)]
  have "results t d = results s d" and "rerunInflight S t"
    by simp_all
  with Cons.IH [OF es rest _ Cons.prems(4)] show ?case
    by simp
qed

lemma handleRerunSelected_eq:
  assumes "selectedDocIds s \<noteq> []" "columns s \<noteq> []"
  shows "handleRerunSelected rt s =
     processExtraction rt (results s)
       (filter (\<lambda>d. doc_id d \<in> set (selectedDocIds s)) (documents s)) (columns s) True
       (s\<lparr>results := (\<lambda>d. if d \<in> set (selectedDocIds s) then None else results s d)\<rparr>)"
  using assms by (simp add: handleRerunSelected_def Let_def fold_delete)

lemma rerunInflight_handleRerunSelected:
  assumes ne: "selectedDocIds s \<noteq> []" "columns s \<noteq> []" and ok: "inflightOk s"
  shows "rerunInflight (set (selectedDocIds s)) (handleRerunSelected rt s)"
proof -
  let ?s0 = "s\<lparr>results := (\<lambda>d. if d \<in> set (selectedDocIds s) then None else results s d)\<rparr>"
  let ?docs = "filter (\<lambda>d. doc_id d \<in> set (selectedDocIds s)) (documents s)"
  let ?s' = "processExtraction rt (results s) ?docs (columns s) True ?s0"
  have eq: "handleRerunSelected rt s = ?s'"
    by (rule handleRerunSelected_eq [OF ne])
  have infl: "inflight ?s' = inflight s @
      map (\<lambda>t. (length (controllers s), fst t, snd t)) (List.product ?docs (columns s))"
    by (simp add: processExtraction_dispatch [OF tasks_force])
  have old: "signalAborted ?s' (fst t)" if "t \<in> set (inflight s)" for t
  proof -
    from ok that have "signalAborted s (fst t) \<or>
        (abortControllerRef s = Some (fst t) \<and> fst t < length (controllers s))"
      by (simp add: inflightOk_def list_all_iff)
    then show ?thesis
    proof
      assume "signalAborted s (fst t)"
      then have "signalAborted ?s0 (fst t)" by (simp add: signalAborted_def)
      then show ?thesis by (rule signalAborted_processExtraction)
    next
      assume "abortControllerRef s = Some (fst t) \<and> fst t < length (controllers s)"
      then have "abortControllerRef ?s0 = Some (fst t)" "fst t < length (controllers ?s0)"
        by simp_all
      then show ?thesis by (rule signalAborted_processExtraction_ref)
    qed
  qed
  have new: "doc_id (fst t) \<in> set (selectedDocIds s)"
    if "t \<in> set (List.product ?docs (columns s))" for t
    using that by auto
  show ?thesis
    unfolding eq rerunInflight_def
  proof
    fix t
    assume "t \<in> set (inflight ?s')"
    then consider "t \<in> set (inflight s)"
      | u where "u \<in> set (List.product ?docs (columns s))"
          and "t = (length (controllers s), fst u, snd u)"
      unfolding infl by auto
    then show "signalAborted ?s' (fst t) \<or> doc_id (fst (snd t)) \<in> set (selectedDocIds s)"
    proof cases
      case 1
      then show ?thesis using old by blast
    next
      case 2
      then show ?thesis using new [of u] by simp
    qed
  qed
qed

text \<open>
  The hypothesis \<open>inflightOk\<close> of the frame property holds initially and is kept by every
  event, so it holds in every state the application reaches.
\<close>

lemma inflightOk_initialState: "inflightOk initialState"
  by (simp add: inflightOk_def initialState_def)

lemma inflightOk_processExtraction:
  assumes "inflightOk s"
  shows "inflightOk (processExtraction rt cr docs cols f s)"
proof -
  let ?s' = "processExtraction rt cr docs cols f s"
  have old: "signalAborted ?s' (fst t)" if "t \<in> set (inflight s)" for t
  proof -
    from assms that have "signalAborted s (fst t) \<or>
        (abortControllerRef s = Some (fst t) \<and> fst t < length (controllers s))"
      by (simp add: inflightOk_def list_all_iff)
    then show ?thesis
      using signalAborted_processExtraction signalAborted_processExtraction_ref by blast
  qed
  show ?thesis
  proof (cases "tasks rt docs cols cr f")
    case (Inl e)
    then have "inflight ?s' = inflight s"
      by (simp add: processExtraction_throws)
    with old show ?thesis
      by (simp add: inflightOk_def list_all_iff)
  next
    case (Inr ts)
    show ?thesis
      unfolding inflightOk_def list_all_iff
    proof
      fix t
      assume "t \<in> set (inflight ?s')"
      then consider "t \<in> set (inflight s)" | "fst t = length (controllers s)"
        by (auto simp add: processExtraction_dispatch [OF Inr])
      then show "signalAborted ?s' (fst t) \<or>
          (abortControllerRef ?s' = Some (fst t) \<and> fst t < length (controllers ?s'))"
      proof cases
        case 1
        then have "signalAborted ?s' (fst t)" by (rule old)
        then show ?thesis ..
      next
        case 2
        then show ?thesis by (simp add: processExtraction_dispatch [OF Inr])
      qed
    qed
  qed
qed

lemma inflightOk_results: "inflightOk (s\<lparr>results := r\<rparr>) = inflightOk s"
  by (simp add: inflightOk_def signalAborted_def)

lemma inflightOk_step:
  assumes st: "step rt e s = Some s'" and ok: "inflightOk s"
  shows "inflightOk s'"
proof (cases e)
  case RunAnalysis
  with st ok show ?thesis
    by (auto simp add: handleRunAnalysis_def inflightOk_processExtraction)
next
  case RerunSelected
  with st ok show ?thesis
    by (auto simp add: handleRerunSelected_def Let_def inflightOk_processExtraction inflightOk_results)
next
  case StopExtraction
  with st have s': "s' = handleStopExtraction s" by simp
  have "inflight s' = inflight s" "abortControllerRef s' = abortControllerRef s"
    "length (controllers s') = length (controllers s)"
    unfolding s' by (simp_all add: handleStopExtraction_def abort_def split: option.splits)
  with ok signalAborted_handleStopExtraction [of s] show ?thesis
    unfolding s' inflightOk_def list_all_iff by auto
next
  case (ClientReturns ctl doc col outcome)
  with st have s': "s' = taskResume ctl doc col outcome (s\<lparr>inflight := remove1 (ctl, doc, col) (inflight s)\<rparr>)"
    by (simp split: if_splits)
  have "inflight s' = remove1 (ctl, doc, col) (inflight s)"
    "abortControllerRef s' = abortControllerRef s" "controllers s' = controllers s"
    unfolding s' by (simp_all add: taskResume_def split: sum.splits)
  with ok set_remove1_subset [of "(ctl, doc, col)" "inflight s"] show ?thesis
    unfolding inflightOk_def list_all_iff signalAborted_def by auto
next
  case (AllSettled ctl)
  with st obtain cols where none: "\<not> list_ex (\<lambda>t. fst t = ctl) (inflight s)"
    and s': "s' = runSettled ctl cols (s\<lparr>awaiting := filter (\<lambda>r. fst r \<noteq> ctl) (awaiting s)\<rparr>)"
    by (auto split: option.splits if_splits)
  have "inflight s' = inflight s" "controllers s' = controllers s"
    "abortControllerRef s' = (if abortControllerRef s = Some ctl then None else abortControllerRef s)"
    unfolding s' by (simp_all add: runSettled_def finallyBlock_def Let_def)
  with ok none show ?thesis
    unfolding inflightOk_def list_all_iff list_ex_iff signalAborted_def by fastforce
next
  case (RemoveDoc d)
  with st ok show ?thesis
    by (auto simp add: handleRemoveDoc_def Let_def inflightOk_def signalAborted_def)
next
  case (ToggleDocSelection d)
  with st ok show ?thesis
    by (auto simp add: handleToggleDocSelection_def inflightOk_def signalAborted_def)
next
  case (CellClick d c)
  with st ok show ?thesis
    by (auto simp add: handleCellClick_def inflightOk_def signalAborted_def split: sum.splits)
qed

lemma inflightOk_exec: "exec rt es s = Some s' \<Longrightarrow> inflightOk s \<Longrightarrow> inflightOk s'"
proof (induction es arbitrary: s)
  case Nil
  then show ?case by simp
next
  case (Cons e es)
  then obtain t where t: "step rt e s = Some t" and rest: "exec rt es t = Some s'"
    by (auto split: option.splits)
  show ?case
    by (rule Cons.IH [OF rest inflightOk_step [OF t Cons.prems(2)]])
qed

text \<open>
  C5. Scoped re-run. The toolbar shows the re-run button only while a document is
  selected and disables it while no column is defined; the handler repeats both tests and
  does nothing when either set is empty. Otherwise it deletes the row of every selected
  document from the result store, makes a fresh controller the active one, and dispatches
  one task for every pair of a selected document and a column (overwrite is on, nothing is
  skipped, no lookup is made). From a state where every in-flight task is cancelled or
  belongs to the active run, and through any sequence of client returns, settlements and
  stops that follows, the row of every document outside the selection stays exactly as it
  was before the re-run.
\<close>

theorem C5_scoped_rerun:
  "(selectedDocIds s = [] \<or> columns s = [] \<longrightarrow> handleRerunSelected rt s = s)
   \<and> (selectedDocIds s \<noteq> [] \<and> columns s \<noteq> [] \<longrightarrow>
        results (handleRerunSelected rt s) =
          (\<lambda>d. if d \<in> set (selectedDocIds s) then None else results s d)
      \<and> abortControllerRef (handleRerunSelected rt s) = Some (length (controllers s))
      \<and> inflight (handleRerunSelected rt s) =
          inflight s @ map (\<lambda>t. (length (controllers s), fst t, snd t))
            (List.product (filter (\<lambda>d. doc_id d \<in> set (selectedDocIds s)) (documents s)) (columns s))
      \<and> (inflightOk s \<and> list_all runEvent es \<and> exec rt es (handleRerunSelected rt s) = Some s'
           \<and> d \<notin> set (selectedDocIds s) \<longrightarrow> results s' d = results s d))"
proof -
  have guard: "handleRerunSelected rt s = s" if "selectedDocIds s = [] \<or> columns s = []"
    using that by (auto simp add: handleRerunSelected_def)
  have run: "results (handleRerunSelected rt s) =
          (\<lambda>d. if d \<in> set (selectedDocIds s) then None else results s d)
      \<and> abortControllerRef (handleRerunSelected rt s) = Some (length (controllers s))
      \<and> inflight (handleRerunSelected rt s) =
          inflight s @ map (\<lambda>t. (length (controllers s), fst t, snd t))
            (List.product (filter (\<lambda>d. doc_id d \<in> set (selectedDocIds s)) (documents s)) (columns s))"
    if "selectedDocIds s \<noteq> []" "columns s \<noteq> []"
    by (simp add: handleRerunSelected_eq [OF that] processExtraction_dispatch [OF tasks_force])
  have frame: "results s' d = results s d"
    if ne: "selectedDocIds s \<noteq> []" "columns s \<noteq> []" and ok: "inflightOk s"
      and es: "list_all runEvent es" "exec rt es (handleRerunSelected rt s) = Some s'"
      and d: "d \<notin> set (selectedDocIds s)"
  proof -
    from rerunInflight_exec [OF es rerunInflight_handleRerunSelected [OF ne ok] d]
    have "results s' d = results (handleRerunSelected rt s) d" .
    also have "\<dots> = results s d"
      using run [OF ne] d by simp
    finally show ?thesis .
  qed
  show ?thesis
  proof (intro conjI impI)
    assume "selectedDocIds s = [] \<or> columns s = []"
    then show "handleRerunSelected rt s = s" by (rule guard)
  next
    assume "selectedDocIds s \<noteq> [] \<and> columns s \<noteq> []"
    then show "results (handleRerunSelected rt s) =
          (\<lambda>d. if d \<in> set (selectedDocIds s) then None else results s d)"
      using run by simp
  next
    assume "selectedDocIds s \<noteq> [] \<and> columns s \<noteq> []"
    then show "abortControllerRef (handleRerunSelected rt s) = Some (length (controllers s))"
      using run by simp
  next
    assume "selectedDocIds s \<noteq> [] \<and> columns s \<noteq> []"
    then show "inflight (handleRerunSelected rt s) =
          inflight s @ map (\<lambda>t. (length (controllers s), fst t, snd t))
            (List.product (filter (\<lambda>d. doc_id d \<in> set (selectedDocIds s)) (documents s)) (columns s))"
      using run by simp
  next
    assume "selectedDocIds s \<noteq> [] \<and> columns s \<noteq> []"
      and "inflightOk s \<and> list_all runEvent es \<and> exec rt es (handleRerunSelected rt s) = Some s'
           \<and> d \<notin> set (selectedDocIds s)"
    then show "results s' d = results s d"
      using frame by simp
  qed
qed

lemma rerunState_inflight: "inflight (handleRerunSelected rt rerunState) = [(0, docA, colX)]"
  by (simp add: rerunState_def eval_defs)

theorem C5_scoped_rerun_witness:
  "\<forall>rt. selectedDocIds rerunState \<noteq> [] \<and> columns rerunState \<noteq> [] \<and> inflightOk rerunState
   \<and> list_all runEvent rerunTrace \<and> ''b'' \<notin> set (selectedDocIds rerunState)
   \<and> results (handleRerunSelected rt rerunState) ''a'' = None
   \<and> inflight (handleRerunSelected rt rerunState) = [(0, docA, colX)]
   \<and> (\<exists>s'. exec rt rerunTrace (handleRerunSelected rt rerunState) = Some s'
         \<and> results s' ''b'' = results rerunState ''b''
         \<and> storedCell (results s') ''a'' ''x'' = Some cellY)"
proof
  fix rt
  have ne: "selectedDocIds rerunState \<noteq> []" "columns rerunState \<noteq> []"
    and ok: "inflightOk rerunState"
    and b: "''b'' \<notin> set (selectedDocIds rerunState)"
    by (simp_all add: rerunState_def initialState_def inflightOk_def)
  have es: "list_all runEvent rerunTrace"
    by (simp add: rerunTrace_def)
  obtain s' where s': "exec rt rerunTrace (handleRerunSelected rt rerunState) = Some s'"
    and a: "storedCell (results s') ''a'' ''x'' = Some cellY"
    by (simp add: rerunTrace_def rerunState_def eval_defs)
  note rerun = C5_scoped_rerun [where s = rerunState and rt = rt and es = rerunTrace
      and s' = s' and d = "''b''"]
  from rerun ne ok es s' b have "results s' ''b'' = results rerunState ''b''"
    by simp
  moreover from rerun ne have "results (handleRerunSelected rt rerunState) ''a'' = None"
    by (simp add: rerunState_def initialState_def)
  ultimately show "selectedDocIds rerunState \<noteq> [] \<and> columns rerunState \<noteq> [] \<and> inflightOk rerunState
   \<and> list_all runEvent rerunTrace \<and> ''b'' \<notin> set (selectedDocIds rerunState)
   \<and> results (handleRerunSelected rt rerunState) ''a'' = None
   \<and> inflight (handleRerunSelected rt rerunState) = [(0, docA, colX)]
   \<and> (\<exists>s'. exec rt rerunTrace (handleRerunSelected rt rerunState) = Some s'
         \<and> results s' ''b'' = results rerunState ''b''
         \<and> storedCell (results s') ''a'' ''x'' = Some cellY)"
    using ne ok es b s' a rerunState_inflight by (auto intro!: exI [of _ s'])
qed

end
